(* ===== verification/Sentinel_Prelude.thy ===== *)
theory Sentinel_Prelude
  imports Main "HOL-Library.AList" "HOL-Library.Word" "HOL-Library.Sublist"
begin

text \<open>
  Shared vocabulary of the development.  It holds the fact collections the component theories
  add to, Go's built-in maps as association lists together with the interface the components
  reason through, and generic facts about lists and machine integers.
\<close>

named_theorems go_defs \<open>definitions of Go's library operations\<close>
named_theorems const_defs \<open>string constants of the program\<close>
named_theorems frame \<open>fields an operation leaves alone\<close>

type_synonym int32 = "32 word"
type_synonym goint = "64 word"

section \<open>Go maps\<close>

text \<open>
  A Go map is a finite map.  It is represented by an association list whose keys are distinct;
  the order of the list is one of the orders in which \<^verbatim>\<open>range\<close> may visit the entries.
\<close>

type_synonym ('k, 'v) gomap = "('k \<times> 'v) list"

definition mget :: "('k, 'v) gomap \<Rightarrow> 'k \<Rightarrow> 'v option" where
  "mget m k = map_of m k"

definition mput :: "('k, 'v) gomap \<Rightarrow> 'k \<Rightarrow> 'v \<Rightarrow> ('k, 'v) gomap" where
  "mput m k v = AList.update k v m"

definition mdel :: "('k, 'v) gomap \<Rightarrow> 'k \<Rightarrow> ('k, 'v) gomap" where
  "mdel m k = AList.delete k m"

definition mkeys :: "('k, 'v) gomap \<Rightarrow> 'k list" where
  "mkeys m = map fst m"

definition map_ok :: "('k, 'v) gomap \<Rightarrow> bool" where
  "map_ok m \<longleftrightarrow> distinct (map fst m)"

text \<open>
  What a client that only removes entries may rely on: a deletion changes the looked-up value
  of one key.  Both Go maps and the components that wrap a map provide it.
\<close>

locale deletable =
  fixes get :: "'m \<Rightarrow> 'k \<Rightarrow> 'v option"
    and del :: "'m \<Rightarrow> 'k \<Rightarrow> 'm"
  assumes get_del: "get (del m k) = (get m)(k := None)"
begin

lemma get_fold_del:
  "get (fold (\<lambda>k m. del m k) ks m) k = (if k \<in> set ks then None else get m k)"
  by (induction ks arbitrary: m) (auto simp: get_del)

lemma get_fold_del_if:
  "get (fold (\<lambda>k m. if P k then del m k else m) ks m) k =
     (if k \<in> set ks \<and> P k then None else get m k)"
  by (induction ks arbitrary: m) (auto simp: get_del)

lemma dom_del: "dom (get (del m k)) = dom (get m) - {k}"
  by (auto simp: get_del)

end

text \<open>The interface of a whole map: insertion and the key enumeration \<^verbatim>\<open>range\<close> uses.\<close>

locale finite_map = deletable +
  fixes emp :: "'m"
    and put :: "'m \<Rightarrow> 'k \<Rightarrow> 'v \<Rightarrow> 'm"
    and keys :: "'m \<Rightarrow> 'k list"
    and ok :: "'m \<Rightarrow> bool"
  assumes get_emp: "get emp k = None"
    and get_put: "get (put m k v) = (get m)(k \<mapsto> v)"
    and set_keys: "set (keys m) = dom (get m)"
    and ok_distinct: "ok m \<Longrightarrow> distinct (keys m)"
    and ok_emp: "ok emp"
    and ok_put: "ok m \<Longrightarrow> ok (put m k v)"
    and ok_del: "ok m \<Longrightarrow> ok (del m k)"
begin

lemma get_fold_put_const:
  "get (fold (\<lambda>k m. put m k v) ks m) k = (if k \<in> set ks then Some v else get m k)"
  by (induction ks arbitrary: m) (auto simp: get_put)

lemma ok_fold_put: "ok m \<Longrightarrow> ok (fold (\<lambda>k m. put m k (f k)) ks m)"
  by (induction ks arbitrary: m) (auto simp: ok_put)

lemma ok_fold_del_if: "ok m \<Longrightarrow> ok (fold (\<lambda>k m. if P k then del m k else m) ks m)"
  by (induction ks arbitrary: m) (auto simp: ok_del)

lemma get_del_all: "get (fold (\<lambda>k m. del m k) (keys m) m) k = None"
  by (cases "get m k") (auto simp: get_fold_del set_keys)

lemma no_keys_iff: "keys m = [] \<longleftrightarrow> (\<forall>k. get m k = None)"
proof -
  have "keys m = [] \<longleftrightarrow> dom (get m) = {}"
    by (metis set_keys set_empty)
  then show ?thesis by auto
qed

end

lemma mget_mdel: "mget (mdel m k) = (mget m)(k := None)"
  by (simp add: mget_def mdel_def fun_eq_iff delete_conv')

lemma mget_mput: "mget (mput m k v) = (mget m)(k \<mapsto> v)"
  by (simp add: mget_def mput_def fun_eq_iff update_conv')

interpretation gm: finite_map mget mdel "[]" mput mkeys map_ok
proof unfold_locales
  fix m :: "('a, 'b) gomap" and k v
  show "mget (mdel m k) = (mget m)(k := None)"
    by (rule mget_mdel)
  show "mget (mput m k v) = (mget m)(k \<mapsto> v)"
    by (rule mget_mput)
  show "set (mkeys m) = dom (mget m)"
    using dom_map_of_conv_image_fst [of m] by (simp add: mkeys_def mget_def dom_def)
  show "map_ok m \<Longrightarrow> map_ok (mput m k v)"
    by (simp add: map_ok_def mput_def distinct_update)
  show "map_ok m \<Longrightarrow> map_ok (mdel m k)"
    by (simp add: map_ok_def mdel_def distinct_delete)
qed (simp_all add: mget_def map_ok_def mkeys_def)

lemmas mget_simps [simp] = gm.get_put gm.get_del gm.get_emp
lemmas map_ok_intros [simp, intro] = gm.ok_put gm.ok_del gm.ok_emp

lemma mget_eq_iff_mem: "map_ok m \<Longrightarrow> mget m k = Some v \<longleftrightarrow> (k, v) \<in> set m"
  by (simp add: map_ok_def mget_def)

lemma mget_SomeD: "mget m k = Some v \<Longrightarrow> (k, v) \<in> set m"
  by (simp add: mget_def map_of_SomeD)

lemma mget_Nil_iff: "(\<forall>k. mget m k = None) \<longleftrightarrow> m = []"
  using gm.no_keys_iff [of m] by (simp add: mkeys_def)

section \<open>Machine integers\<close>

definition int64_ok :: "int \<Rightarrow> bool" where
  "int64_ok x \<longleftrightarrow> - (2 ^ 63) \<le> x \<and> x < 2 ^ 63"

lemma sint64_bounds: "- (2 ^ 63) \<le> sint (d :: 64 word)" "sint (d :: 64 word) < 2 ^ 63"
  using sint_ge [of d] sint_lt [of d] by simp_all

lemma sint64_ok [simp]: "int64_ok (sint (d :: 64 word))"
  using sint64_bounds [of d] by (simp add: int64_ok_def)

lemma sint_word_of_int64: "int64_ok x \<Longrightarrow> sint (word_of_int x :: 64 word) = x"
  by (simp add: int64_ok_def sint_sbintrunc' signed_take_bit_int_eq_self)

lemma sint_word_of_int32: "- (2 ^ 31) \<le> x \<Longrightarrow> x < 2 ^ 31 \<Longrightarrow> sint (word_of_int x :: 32 word) = x"
  by (simp add: sint_sbintrunc' signed_take_bit_int_eq_self)

section \<open>Lists\<close>

lemma filter_filter_weaker: "(\<And>x. x \<in> set xs \<Longrightarrow> P x \<Longrightarrow> Q x) \<Longrightarrow> filter P (filter Q xs) = filter P xs"
  by (induction xs) auto

lemma takeWhile_append_stop:
  "(\<And>x. x \<in> set xs \<Longrightarrow> P x) \<Longrightarrow> \<not> P y \<Longrightarrow> takeWhile P (xs @ y # ys) = xs"
  by (induction xs) auto

text \<open>Two strings joined by a separator that neither first part holds split uniquely.\<close>

lemma append_sep_inject:
  assumes "sep \<notin> set xs" "sep \<notin> set ys"
  shows "xs @ sep # us = ys @ sep # vs \<longleftrightarrow> xs = ys \<and> us = vs"
proof
  assume eq: "xs @ sep # us = ys @ sep # vs"
  have "takeWhile (\<lambda>c. c \<noteq> sep) (xs @ sep # us) = xs"
    using assms(1) by (intro takeWhile_append_stop) auto
  moreover have "takeWhile (\<lambda>c. c \<noteq> sep) (ys @ sep # vs) = ys"
    using assms(2) by (intro takeWhile_append_stop) auto
  ultimately have "xs = ys" using eq by simp
  with eq show "xs = ys \<and> us = vs" by simp
qed simp

lemma subseq_distinct:
  assumes "subseq xs ys" "distinct ys"
  shows "distinct xs"
  using assms
proof (induction rule: list_emb.induct)
  case (list_emb_Cons2 x y xs ys)
  then show ?case by (auto dest: list_emb_set)
qed auto

section \<open>Transition systems\<close>

text \<open>
  Reachable states of a labelled transition system, and the contract of an inductive
  invariant: it holds initially and every step keeps it.
\<close>

inductive reachable :: "('s \<Rightarrow> bool) \<Rightarrow> ('s \<Rightarrow> 'e \<Rightarrow> 's \<Rightarrow> bool) \<Rightarrow> 's \<Rightarrow> bool" for start step where
  initial: "start s \<Longrightarrow> reachable start step s"
| advance: "reachable start step s \<Longrightarrow> step s e t \<Longrightarrow> reachable start step t"

locale invariant_of =
  fixes start :: "'s \<Rightarrow> bool"
    and step :: "'s \<Rightarrow> 'e \<Rightarrow> 's \<Rightarrow> bool"
    and inv :: "'s \<Rightarrow> bool"
  assumes holds_initially: "start s \<Longrightarrow> inv s"
    and kept_by_step: "inv s \<Longrightarrow> step s e t \<Longrightarrow> inv t"
begin

lemma holds_reachable: "reachable start step s \<Longrightarrow> inv s"
  by (induction rule: reachable.induct) (auto intro: holds_initially kept_by_step)

end

section \<open>Refinement of machines with output\<close>

text \<open>The final state and the whole output of a machine that is fed a list of inputs.\<close>

fun runOut :: "('i \<Rightarrow> 's \<Rightarrow> 's \<times> 'o list) \<Rightarrow> 'i list \<Rightarrow> 's \<Rightarrow> 's \<times> 'o list" where
  "runOut step [] s = (s, [])"
| "runOut step (i # is) s =
     (case step i s of (s, out) \<Rightarrow> case runOut step is s of (s, out') \<Rightarrow> (s, out @ out'))"

text \<open>What a machine makes of its inputs on the way, for a second machine to read.\<close>

fun inputsSeen :: "('i \<Rightarrow> 's \<Rightarrow> 's \<times> 'o list) \<Rightarrow> ('i \<Rightarrow> 's \<Rightarrow> 'j) \<Rightarrow> 'i list \<Rightarrow> 's \<Rightarrow> 'j list" where
  "inputsSeen step see [] s = []"
| "inputsSeen step see (i # is) s = see i s # inputsSeen step see is (fst (step i s))"

text \<open>
  The detailed machine implements the abstract one: each of its steps does to the abstraction of
  its state what the abstract step does, and its output renders the abstract output.
\<close>

locale implements =
  fixes cstep :: "'i \<Rightarrow> 'c \<Rightarrow> 'c \<times> 'o list"
    and astep :: "'j \<Rightarrow> 'a \<Rightarrow> 'a \<times> 'p list"
    and see :: "'i \<Rightarrow> 'c \<Rightarrow> 'j"
    and absOf :: "'c \<Rightarrow> 'a"
    and render :: "'p \<Rightarrow> 'o list"
    and ok :: "'i \<Rightarrow> bool"
    and inv :: "'c \<Rightarrow> bool"
  assumes keeps: "inv c \<Longrightarrow> ok i \<Longrightarrow> inv (fst (cstep i c))"
    and commutes: "inv c \<Longrightarrow> ok i \<Longrightarrow> absOf (fst (cstep i c)) = fst (astep (see i c) (absOf c))"
    and renders: "inv c \<Longrightarrow> ok i \<Longrightarrow>
      snd (cstep i c) = concat (map render (snd (astep (see i c) (absOf c))))"
begin

lemma run_implements:
  assumes "inv c" "list_all ok is"
  shows "absOf (fst (runOut cstep is c)) = fst (runOut astep (inputsSeen cstep see is c) (absOf c)) \<and>
     snd (runOut cstep is c) = concat (map render (snd (runOut astep (inputsSeen cstep see is c) (absOf c))))"
  using assms
proof (induction "is" arbitrary: c)
  case (Cons i "is")
  then show ?case
    using keeps [of c i] commutes [of c i] renders [of c i] by (simp add: case_prod_beta)
qed simp

end

end
