(* ===== verification/Go_Time.thy ===== *)
theory Go_Time
  imports Sentinel_Prelude "HOL-Library.Signed_Division"
begin

text \<open>
  The part of Go's package \<^verbatim>\<open>time\<close> that the program uses.

  A \<^verbatim>\<open>time.Duration\<close> is a signed 64-bit count of nanoseconds, so its arithmetic wraps.  A
  \<^verbatim>\<open>time.Time\<close> carries a wall-clock reading and, when it comes from \<^verbatim>\<open>time.Now\<close>, a monotonic
  reading as well; subtraction and comparison use the monotonic readings when both operands
  have one.  The wall reading counts nanoseconds from Go's zero time, and is not bounded here
  (the implementation keeps 64 bits of seconds).  Timestamps read from the API server carry
  no monotonic reading.
\<close>

section \<open>Durations\<close>

type_synonym duration = "64 word"

definition Nanosecond :: duration where [go_defs]: "Nanosecond = 1"
definition Microsecond :: duration where [go_defs]: "Microsecond = 1000"
definition Millisecond :: duration where [go_defs]: "Millisecond = 1000000"
definition Second :: duration where [go_defs]: "Second = 1000000000"
definition Minute :: duration where [go_defs]: "Minute = 60000000000"
definition Hour :: duration where [go_defs]: "Hour = 3600000000000"
definition minDuration :: duration where [go_defs]: "minDuration = word_of_int (- (2 ^ 63))"
definition maxDuration :: duration where [go_defs]: "maxDuration = word_of_int (2 ^ 63 - 1)"

text \<open>Go's remainder truncates towards zero.\<close>

definition durRem :: "duration \<Rightarrow> duration \<Rightarrow> duration" where
  "durRem d m = word_of_int (sint d smod sint m)"

text \<open>\<^verbatim>\<open>uint64(x)+uint64(x) < uint64(y)\<close>\<close>

definition lessThanHalf :: "duration \<Rightarrow> duration \<Rightarrow> bool" where
  "lessThanHalf x y \<longleftrightarrow> x + x < y"

definition durRound :: "duration \<Rightarrow> duration \<Rightarrow> duration" where
  "durRound d m =
     (if sint m \<le> 0 then d
      else if sint d < 0 then
        (let r = - durRem d m in
         if lessThanHalf r m then d + r
         else let d1 = d - m + r in if sint d1 < sint d then d1 else minDuration)
      else
        (let r = durRem d m in
         if lessThanHalf r m then d - r
         else let d1 = d + m - r in if sint d < sint d1 then d1 else maxDuration))"

section \<open>Points in time\<close>

record time =
  wall :: int
  mono :: "int option"

definition zeroTime :: time where
  "zeroTime = \<lparr>wall = 0, mono = None\<rparr>"

definition timeIsZero :: "time \<Rightarrow> bool" where
  "timeIsZero t \<longleftrightarrow> wall t = 0"

text \<open>Subtraction saturates at the extreme durations.\<close>

definition sat64 :: "int \<Rightarrow> duration" where
  "sat64 x = (if x > 2 ^ 63 - 1 then maxDuration else if x < - (2 ^ 63) then minDuration
              else word_of_int x)"

definition timeSub :: "time \<Rightarrow> time \<Rightarrow> duration" where
  "timeSub t u =
     (case (mono t, mono u) of
        (Some a, Some b) \<Rightarrow> sat64 (a - b)
      | _ \<Rightarrow> sat64 (wall t - wall u))"

text \<open>Adding a duration drops the monotonic reading when the addition overflows it.\<close>

definition timeAdd :: "time \<Rightarrow> duration \<Rightarrow> time" where
  "timeAdd t d =
     \<lparr>wall = wall t + sint d,
      mono = (case mono t of None \<Rightarrow> None
              | Some a \<Rightarrow> if int64_ok (a + sint d) then Some (a + sint d) else None)\<rparr>"

definition timeAfter :: "time \<Rightarrow> time \<Rightarrow> bool" where
  "timeAfter t u \<longleftrightarrow>
     (case (mono t, mono u) of
        (Some a, Some b) \<Rightarrow> b < a
      | _ \<Rightarrow> wall u < wall t)"

text \<open>What \<^verbatim>\<open>time.Now\<close> returns: a reading with a monotonic part, taken after the epoch.\<close>

definition from_clock :: "time \<Rightarrow> bool" where
  "from_clock t \<longleftrightarrow> (case mono t of None \<Rightarrow> False | Some a \<Rightarrow> 0 \<le> a \<and> a < 2 ^ 63) \<and> 0 < wall t"

definition ticks_of :: "time \<Rightarrow> int" where
  "ticks_of t = (case mono t of None \<Rightarrow> 0 | Some a \<Rightarrow> a)"

section \<open>Facts\<close>

lemma sint_units [simp]:
  "sint Nanosecond = 1" "sint Microsecond = 1000" "sint Millisecond = 1000000"
  "sint Second = 1000000000" "sint Minute = 60000000000" "sint Hour = 3600000000000"
  by (simp_all add: go_defs)

lemma sint_min_max [simp]:
  "sint minDuration = - (2 ^ 63)" "sint maxDuration = 2 ^ 63 - 1"
  by (simp_all add: go_defs)

lemma sint_sat64: "sint (sat64 x) = max (- (2 ^ 63)) (min (2 ^ 63 - 1) x)"
proof -
  have "sint (word_of_int x :: duration) = x" if "- (2 ^ 63) \<le> x" "x \<le> 2 ^ 63 - 1"
    using that by (intro sint_word_of_int64) (simp add: int64_ok_def)
  then show ?thesis by (auto simp: sat64_def)
qed

lemma from_clockD:
  assumes "from_clock t"
  shows "mono t = Some (ticks_of t)" "0 \<le> ticks_of t" "ticks_of t < 2 ^ 63" "\<not> timeIsZero t"
  using assms by (auto simp: from_clock_def ticks_of_def timeIsZero_def split: option.splits)

text \<open>Between two clock readings, elapsed time is the difference of the monotonic readings.\<close>

lemma timeSub_clock:
  assumes "from_clock t" "from_clock u"
  shows "sint (timeSub t u) = ticks_of t - ticks_of u"
  using from_clockD [OF assms(1)] from_clockD [OF assms(2)]
  by (simp add: timeSub_def sint_sat64)

lemma timeSub_wall:
  "mono u = None \<Longrightarrow> sint (timeSub t u) = max (- (2 ^ 63)) (min (2 ^ 63 - 1) (wall t - wall u))"
  by (cases "mono t") (simp_all add: timeSub_def sint_sat64)

lemma timeAfter_cutoff:
  assumes "from_clock t" "from_clock now" "0 \<le> sint w"
  shows "timeAfter t (timeAdd now (- w)) \<longleftrightarrow> ticks_of now - ticks_of t < sint w"
proof -
  have "int64_ok (- sint w)"
    using assms(3) sint64_bounds [of w] by (simp add: int64_ok_def)
  then have neg: "sint (- w) = - sint w"
    using sint_word_of_int64 [of "- sint w"] by simp
  have "int64_ok (ticks_of now + sint (- w))"
    using from_clockD [OF assms(2)] assms(3) sint64_bounds [of w] neg by (simp add: int64_ok_def)
  then show ?thesis
    using from_clockD [OF assms(1)] from_clockD [OF assms(2)] neg
    by (auto simp: timeAfter_def timeAdd_def)
qed

text \<open>Rounding a non-negative duration is exact in integer arithmetic until it saturates.\<close>

lemma sint_eqI: "int64_ok x \<Longrightarrow> w = word_of_int x \<Longrightarrow> sint (w :: 64 word) = x"
  by (simp add: sint_word_of_int64)

lemma sint_durRem:
  assumes "0 \<le> sint d" "0 < sint m"
  shows "sint (durRem d m) = sint d mod sint m"
proof -
  have "sint d smod sint m = sint d mod sint m"
    using assms by (cases "sint d = 0") (auto simp: signed_modulo_int_def)
  moreover have "int64_ok (sint d mod sint m)"
    using pos_mod_bound [OF assms(2), of "sint d"] pos_mod_sign [OF assms(2), of "sint d"]
      sint64_bounds [of m] unfolding int64_ok_def by linarith
  ultimately show ?thesis
    by (simp add: durRem_def sint_word_of_int64)
qed

lemma uint_eq_sint:
  assumes "0 \<le> sint (w :: 64 word)"
  shows "uint w = sint w"
proof -
  have "uint w = take_bit 64 (sint w)"
    using uint_sint [of w] by simp
  also have "\<dots> = sint w"
    using assms sint64_bounds(2) [of w] by (simp add: take_bit_int_eq_self)
  finally show ?thesis .
qed

lemma lessThanHalf_iff:
  assumes "0 \<le> sint x" "0 \<le> sint y"
  shows "lessThanHalf x y \<longleftrightarrow> 2 * sint x < sint y"
proof -
  have "uint (x + x) = uint x + uint x"
    using assms(1) sint64_bounds(2) [of x] by (simp add: uint_word_ariths uint_eq_sint)
  then show ?thesis
    using assms by (simp add: lessThanHalf_def word_less_def uint_eq_sint)
qed

lemma sint_durRound_nonneg:
  assumes "0 \<le> sint d" "0 < sint m" "sint d + sint m < 2 ^ 63"
  shows "sint (durRound d m) =
     (let r = sint d mod sint m in if 2 * r < sint m then sint d - r else sint d + sint m - r)"
proof -
  let ?r = "sint d mod sint m"
  have r: "0 \<le> ?r" "?r < sint m" "?r \<le> sint d"
    using assms by (auto simp: zmod_le_nonneg_dividend)
  note rem = sint_durRem [OF assms(1,2)]
  have down: "sint (d - durRem d m) = sint d - ?r"
    using r assms sint64_bounds [of d]
    by (intro sint_eqI) (auto simp: int64_ok_def rem [symmetric] wi_hom_syms)
  have up: "sint (d + m - durRem d m) = sint d + sint m - ?r"
    using r assms sint64_bounds [of d]
    by (intro sint_eqI) (auto simp: int64_ok_def rem [symmetric] wi_hom_syms)
  have half: "lessThanHalf (durRem d m) m \<longleftrightarrow> 2 * ?r < sint m"
    using r assms by (simp add: lessThanHalf_iff rem)
  show ?thesis
    using assms r by (simp add: durRound_def Let_def down up half)
qed

text \<open>The rounded value is the multiple of the unit nearest to the given duration.\<close>

lemma durRound_nearest:
  assumes "0 \<le> sint d" "0 < sint m" "sint d + sint m < 2 ^ 63"
  shows "sint m dvd sint (durRound d m)" "2 * \<bar>sint (durRound d m) - sint d\<bar> \<le> sint m"
proof -
  let ?r = "sint d mod sint m"
  have r: "0 \<le> ?r" "?r < sint m" using assms(2) by simp_all
  have dv: "sint m dvd sint d - ?r" by (simp add: minus_mod_eq_mult_div)
  then have "sint m dvd sint d + sint m - ?r"
    by (metis add_diff_eq add.commute dvd_add_right_iff dvd_refl diff_add_eq)
  with dv show "sint m dvd sint (durRound d m)"
    using assms by (simp add: sint_durRound_nonneg Let_def)
  show "2 * \<bar>sint (durRound d m) - sint d\<bar> \<le> sint m"
    using assms r by (simp add: sint_durRound_nonneg Let_def)
qed

end
