(* ===== verification/Go_Strings.thy ===== *)
theory Go_Strings
  imports Go_Time
begin

text \<open>
  Go strings are byte sequences, so they are HOL strings (lists of 8-bit characters).  The
  theory models the operations of \<^verbatim>\<open>strings\<close>, \<^verbatim>\<open>strconv\<close> and \<^verbatim>\<open>fmt\<close> that the program calls:
  decimal printing (\<^verbatim>\<open>%d\<close>), quoting (\<^verbatim>\<open>%q\<close>), \<^verbatim>\<open>TrimSpace\<close>, \<^verbatim>\<open>IndexByte\<close>, \<^verbatim>\<open>HasPrefix\<close> and
  the printed form of a duration.  Whether a code point above 127 is printable is decided by
  a Unicode table of the Go distribution, which is an argument \<open>isPrint\<close> of \<open>quote\<close>.
\<close>

section \<open>Numbers\<close>

definition digitChar :: "int \<Rightarrow> char" where
  "digitChar n = (if n < 10 then char_of (48 + n) else char_of (87 + n))"

text \<open>The decimal digits of a number that is not negative.\<close>

function natString :: "int \<Rightarrow> string" where
  "natString n = (if n < 10 then [digitChar n] else natString (n div 10) @ [digitChar (n mod 10)])"
  by pat_completeness auto
termination
  by (relation "measure nat") auto

declare natString.simps [simp del]

definition intString :: "int \<Rightarrow> string" where
  "intString i = (if i < 0 then ''-'' @ natString (- i) else natString i)"

text \<open>Lower-case hexadecimal of fixed width.\<close>

fun hexString :: "nat \<Rightarrow> nat \<Rightarrow> string" where
  "hexString 0 n = []"
| "hexString (Suc w) n = hexString w (n div 16) @ [digitChar (int (n mod 16))]"

section \<open>UTF-8\<close>

text \<open>
  \<open>decodeRune\<close> returns the first code point and its width, or \<open>None\<close> where Go returns
  \<^verbatim>\<open>(RuneError, 1)\<close> for an invalid first byte sequence.
\<close>

definition contByte :: "char \<Rightarrow> bool" where
  "contByte c \<longleftrightarrow> 128 \<le> (of_char c :: nat) \<and> (of_char c :: nat) < 192"

definition byteIn :: "nat \<Rightarrow> nat \<Rightarrow> char \<Rightarrow> bool" where
  "byteIn lo hi c \<longleftrightarrow> lo \<le> (of_char c :: nat) \<and> (of_char c :: nat) \<le> hi"

definition low6 :: "char \<Rightarrow> nat" where
  "low6 c = of_char c mod 64"

fun decodeRune :: "string \<Rightarrow> (nat \<times> nat) option" where
  "decodeRune [] = None"
| "decodeRune (c # cs) =
    (let b = of_char c in
     if b < 128 then Some (b, 1)
     else if b < 194 then None
     else if b < 224 then
       (case cs of c1 # _ \<Rightarrow> if contByte c1 then Some ((b - 192) * 64 + low6 c1, 2) else None
        | _ \<Rightarrow> None)
     else if b < 240 then
       (case cs of c1 # c2 # _ \<Rightarrow>
          if byteIn (if b = 224 then 160 else 128) (if b = 237 then 159 else 191) c1 \<and> contByte c2
          then Some ((b - 224) * 4096 + low6 c1 * 64 + low6 c2, 3) else None
        | _ \<Rightarrow> None)
     else if b < 245 then
       (case cs of c1 # c2 # c3 # _ \<Rightarrow>
          if byteIn (if b = 240 then 144 else 128) (if b = 244 then 143 else 191) c1
             \<and> contByte c2 \<and> contByte c3
          then Some ((b - 240) * 262144 + low6 c1 * 4096 + low6 c2 * 64 + low6 c3, 4) else None
        | _ \<Rightarrow> None)
     else None)"

lemma decodeRune_width:
  "decodeRune s = Some (r, w) \<Longrightarrow> 0 < w \<and> w \<le> length s"
  by (cases s) (auto simp: Let_def split: if_splits list.splits)

fun validUTF8 :: "string \<Rightarrow> bool" where
  "validUTF8 [] = True"
| "validUTF8 (c # cs) =
     (case decodeRune (c # cs) of None \<Rightarrow> False | Some (r, w) \<Rightarrow> validUTF8 (drop (w - 1) cs))"

section \<open>Quoting\<close>

definition escapeRune :: "(nat \<Rightarrow> bool) \<Rightarrow> nat \<Rightarrow> string \<Rightarrow> string" where
  "escapeRune isPrint r raw =
     (if r = 34 \<or> r = 92 then CHR 0x5C # raw
      else if (if r < 128 then 32 \<le> r \<and> r < 127 else isPrint r) then raw
      else if r = 7 then [CHR 0x5C, CHR ''a'']
      else if r = 8 then [CHR 0x5C, CHR ''b'']
      else if r = 12 then [CHR 0x5C, CHR ''f'']
      else if r = 10 then [CHR 0x5C, CHR ''n'']
      else if r = 13 then [CHR 0x5C, CHR ''r'']
      else if r = 9 then [CHR 0x5C, CHR ''t'']
      else if r = 11 then [CHR 0x5C, CHR ''v'']
      else if r < 32 \<or> r = 127 then [CHR 0x5C, CHR ''x''] @ hexString 2 r
      else if r < 65536 then [CHR 0x5C, CHR ''u''] @ hexString 4 r
      else [CHR 0x5C, CHR ''U''] @ hexString 8 r)"

function quoteBody :: "(nat \<Rightarrow> bool) \<Rightarrow> string \<Rightarrow> string" where
  "quoteBody isPrint [] = []"
| "quoteBody isPrint (c # cs) =
     (case decodeRune (c # cs) of
        None \<Rightarrow> [CHR 0x5C, CHR ''x''] @ hexString 2 (of_char c) @ quoteBody isPrint cs
      | Some (r, w) \<Rightarrow>
          escapeRune isPrint r (take w (c # cs)) @ quoteBody isPrint (drop (w - 1) cs))"
  by pat_completeness auto
termination
  by (relation "measure (\<lambda>(p, s). length s)") (auto simp: less_Suc_eq_le)

definition quote :: "(nat \<Rightarrow> bool) \<Rightarrow> string \<Rightarrow> string" where
  "quote isPrint s = CHR 0x22 # quoteBody isPrint s @ [CHR 0x22]"

section \<open>Trimming and searching\<close>

text \<open>The UTF-8 encodings of the code points \<^verbatim>\<open>unicode.IsSpace\<close> accepts.\<close>

definition spaceEncodings :: "string list" where
  "spaceEncodings =
     [[CHR 0x09], [CHR 0x0A], [CHR 0x0B], [CHR 0x0C], [CHR 0x0D], [CHR 0x20],
      [CHR 0xC2, CHR 0x85], [CHR 0xC2, CHR 0xA0], [CHR 0xE1, CHR 0x9A, CHR 0x80],
      [CHR 0xE2, CHR 0x80, CHR 0x80], [CHR 0xE2, CHR 0x80, CHR 0x81],
      [CHR 0xE2, CHR 0x80, CHR 0x82], [CHR 0xE2, CHR 0x80, CHR 0x83],
      [CHR 0xE2, CHR 0x80, CHR 0x84], [CHR 0xE2, CHR 0x80, CHR 0x85],
      [CHR 0xE2, CHR 0x80, CHR 0x86], [CHR 0xE2, CHR 0x80, CHR 0x87],
      [CHR 0xE2, CHR 0x80, CHR 0x88], [CHR 0xE2, CHR 0x80, CHR 0x89],
      [CHR 0xE2, CHR 0x80, CHR 0x8A], [CHR 0xE2, CHR 0x80, CHR 0xA8],
      [CHR 0xE2, CHR 0x80, CHR 0xA9], [CHR 0xE2, CHR 0x80, CHR 0xAF],
      [CHR 0xE2, CHR 0x81, CHR 0x9F], [CHR 0xE3, CHR 0x80, CHR 0x80]]"

text \<open>Strip, again and again, a prefix that is one of the given non-empty strings.\<close>

function stripPrefixes :: "string list \<Rightarrow> string \<Rightarrow> string" where
  "stripPrefixes es s =
     (case find (\<lambda>e. e \<noteq> [] \<and> prefix e s) es of
        None \<Rightarrow> s
      | Some e \<Rightarrow> stripPrefixes es (drop (length e) s))"
  by pat_completeness auto
termination
proof (relation "measure (\<lambda>(es, s). length s)")
  fix es s e
  assume "find (\<lambda>e. e \<noteq> [] \<and> prefix e s) es = Some e"
  then have "e \<noteq> []" "prefix e s" by (auto simp: find_Some_iff)
  then show "((es, drop (length e) s), es, s) \<in> measure (\<lambda>(es, s). length s)"
    by (auto simp: prefix_def)
qed simp

declare stripPrefixes.simps [simp del]

definition trimLeft :: "string \<Rightarrow> string" where
  "trimLeft s = stripPrefixes spaceEncodings s"

definition trimRight :: "string \<Rightarrow> string" where
  "trimRight s = rev (stripPrefixes (map rev spaceEncodings) (rev s))"

definition trimSpace :: "string \<Rightarrow> string" where
  "trimSpace s = trimRight (trimLeft s)"

text \<open>\<^verbatim>\<open>strings.IndexByte\<close>, with \<open>None\<close> for -1.\<close>

fun indexByte :: "string \<Rightarrow> char \<Rightarrow> nat option" where
  "indexByte [] c = None"
| "indexByte (x # xs) c = (if x = c then Some 0 else map_option Suc (indexByte xs c))"

definition hasPrefix :: "string \<Rightarrow> string \<Rightarrow> bool" where
  "hasPrefix s p \<longleftrightarrow> take (length p) s = p"

section \<open>Printing a duration\<close>

text \<open>
  \<open>fmtFrac v p\<close> prints the lowest \<open>p\<close> decimal digits of \<open>v\<close> as a fraction without trailing
  zeros, and returns the rest of the number.
\<close>

fun fmtFracLoop :: "nat \<Rightarrow> int \<Rightarrow> bool \<Rightarrow> string \<Rightarrow> bool \<times> string \<times> int" where
  "fmtFracLoop 0 v pr buf = (pr, buf, v)"
| "fmtFracLoop (Suc p) v pr buf =
     (let digit = v mod 10; pr' = (pr \<or> digit \<noteq> 0) in
      fmtFracLoop p (v div 10) pr' (if pr' then digitChar digit # buf else buf))"

definition fmtFrac :: "int \<Rightarrow> nat \<Rightarrow> string \<times> int" where
  "fmtFrac v p =
     (case fmtFracLoop p v False [] of (pr, buf, u) \<Rightarrow> (if pr then CHR ''.'' # buf else buf, u))"

definition durationString :: "duration \<Rightarrow> string" where
  "durationString d =
     (let u = \<bar>sint d\<bar>;
          body =
            (if u = 0 then ''0s''
             else if u < 1000 then natString u @ ''ns''
             else if u < 1000000 then
               (let (f, v) = fmtFrac u 3 in natString v @ f @ [CHR 0xC2, CHR 0xB5] @ ''s'')
             else if u < 1000000000 then
               (let (f, v) = fmtFrac u 6 in natString v @ f @ ''ms'')
             else
               (let (f, v) = fmtFrac u 9; secs = natString (v mod 60) @ f @ ''s''; mins = v div 60 in
                if mins = 0 then secs
                else let ms = natString (mins mod 60) @ ''m'' @ secs; hs = mins div 60 in
                  if hs = 0 then ms else natString hs @ ''h'' @ ms))
      in if sint d < 0 then CHR ''-'' # body else body)"

section \<open>Facts\<close>

lemma hasPrefix_iff: "hasPrefix s p \<longleftrightarrow> (\<exists>t. s = p @ t)"
  by (metis append_eq_conv_conj append_take_drop_id hasPrefix_def)

lemma hasPrefix_append [simp]: "hasPrefix (p @ t) p"
  by (simp add: hasPrefix_def)

lemma indexByte_Some:
  "indexByte s c = Some i \<Longrightarrow> i < length s \<and> s ! i = c \<and> c \<notin> set (take i s)"
  by (induction s arbitrary: i) (auto split: if_splits simp: less_Suc_eq_0_disj)

lemma indexByte_None: "indexByte s c = None \<longleftrightarrow> c \<notin> set s"
  by (induction s) auto

lemma take_indexByte:
  "indexByte s c = Some i \<Longrightarrow> take i s = takeWhile (\<lambda>x. x \<noteq> c) s"
  by (induction s arbitrary: i) (auto split: if_splits)

lemma natString_nonempty [simp]: "natString n \<noteq> []"
  by (subst natString.simps) simp

text \<open>The result of a strip has no prefix left to strip, and is a suffix of its input.\<close>

lemma stripPrefixes_done:
  "e \<in> set es \<Longrightarrow> e \<noteq> [] \<Longrightarrow> \<not> prefix e (stripPrefixes es s)"
proof (induction es s rule: stripPrefixes.induct)
  case (1 es s)
  show ?case
  proof (cases "find (\<lambda>e. e \<noteq> [] \<and> prefix e s) es")
    case None
    then have "stripPrefixes es s = s" by (simp add: stripPrefixes.simps [of es s])
    with None "1.prems" show ?thesis by (auto simp: find_None_iff)
  next
    case (Some e')
    with "1" show ?thesis by (simp add: stripPrefixes.simps [of es s])
  qed
qed

lemma stripPrefixes_suffix: "\<exists>xs. s = xs @ stripPrefixes es s"
proof (induction es s rule: stripPrefixes.induct)
  case (1 es s)
  show ?case
  proof (cases "find (\<lambda>e. e \<noteq> [] \<and> prefix e s) es")
    case None
    then show ?thesis by (simp add: stripPrefixes.simps [of es s])
  next
    case (Some e)
    with "1.IH" obtain xs where "drop (length e) s = xs @ stripPrefixes es (drop (length e) s)"
      by blast
    then have "s = (take (length e) s @ xs) @ stripPrefixes es (drop (length e) s)"
      by (metis append_assoc append_take_drop_id)
    moreover have "stripPrefixes es s = stripPrefixes es (drop (length e) s)"
      using Some by (simp add: stripPrefixes.simps [of es s])
    ultimately show ?thesis by metis
  qed
qed

end
