(* ===== verification/K8s_Api.thy ===== *)
theory K8s_Api
  imports Go_Strings
begin

text \<open>
  The Kubernetes API objects as the program reads them.  The types come from
  \<^verbatim>\<open>k8s.io/api/core/v1\<close>, which the repository only imports; the records below hold the fields
  that the sources under \<^verbatim>\<open>src/internal\<close> access and nothing else, and the string constants are the
  API values that the README's rule table names.  Pointer fields are options.
\<close>

record ContainerStateWaiting =
  wReason :: string
  wMessage :: string

record ContainerStateTerminated =
  tReason :: string
  tExitCode :: int32

record ContainerState =
  Waiting :: "ContainerStateWaiting option"
  Terminated :: "ContainerStateTerminated option"

record ContainerStatus =
  csName :: string
  csRestartCount :: int32
  csReady :: bool
  csState :: ContainerState
  csLastTerminationState :: ContainerState

record PodCondition =
  pcType :: string
  pcStatus :: string
  pcReason :: string
  pcMessage :: string

record Pod =
  podNamespace :: string
  podName :: string
  podUID :: string
  podDeletionTimestamp :: "time option"
  podCreationTimestamp :: time
  podPhase :: string
  podContainerStatuses :: "ContainerStatus list"
  podConditions :: "PodCondition list"

record NodeCondition =
  ncType :: string
  ncStatus :: string
  ncLastTransitionTime :: time
  ncMessage :: string

record Node =
  nodeName :: string
  nodeUID :: string
  nodeConditions :: "NodeCondition list"

record ObjectReference =
  refKind :: string
  refNamespace :: string
  refName :: string
  refUID :: string
  refAPIVersion :: string
  refFieldPath :: string

definition PodPending :: string where [const_defs]: "PodPending = ''Pending''"
definition PodScheduled :: string where [const_defs]: "PodScheduled = ''PodScheduled''"
definition ConditionTrue :: string where [const_defs]: "ConditionTrue = ''True''"
definition NodeReady :: string where [const_defs]: "NodeReady = ''Ready''"
definition NodeMemoryPressure :: string where [const_defs]: "NodeMemoryPressure = ''MemoryPressure''"
definition NodeDiskPressure :: string where [const_defs]: "NodeDiskPressure = ''DiskPressure''"
definition NodePIDPressure :: string where [const_defs]: "NodePIDPressure = ''PIDPressure''"
definition EventTypeWarning :: string where [const_defs]: "EventTypeWarning = ''Warning''"

text \<open>
  Names and namespaces of Kubernetes objects are DNS labels and subdomains, so they never hold
  the separators \<^verbatim>\<open>/\<close> and \<^verbatim>\<open>|\<close> that the program puts between them.
\<close>

definition plain :: "string \<Rightarrow> bool" where
  "plain s \<longleftrightarrow> CHR ''/'' \<notin> set s \<and> CHR 0x7C \<notin> set s"

end
