(* ===== verification/Reliability_Util.thy ===== *)
theory Reliability_Util
  imports K8s_Api
begin

text \<open>
  \<^verbatim>\<open>src/internal/reliability/util.go\<close>: shortening a message to its first line, rounding a
  duration for display, and the field path of a container.
\<close>

definition ellipsis :: string where
  "ellipsis = [CHR 0xE2, CHR 0x80, CHR 0xA6]"

definition firstLine :: "string \<Rightarrow> string" where
  "firstLine s =
     (let s1 = trimSpace s;
          s2 = (case indexByte s1 (CHR 0x0A) of Some i \<Rightarrow> take i s1 | None \<Rightarrow> s1);
          s3 = (if length s2 > 240 then take 240 s2 @ ellipsis else s2)
      in if s3 = '''' then ''(no message)'' else s3)"

definition roundDur :: "duration \<Rightarrow> duration" where
  "roundDur d =
     (if sint d < sint Minute then durRound d Second
      else if sint d < sint Hour then durRound d Minute
      else durRound d Hour)"

definition typesUID :: "string \<Rightarrow> string" where
  "typesUID s = s"

definition fieldPathForContainer :: "string \<Rightarrow> string" where
  "fieldPathForContainer name =
     (if name = '''' then '''' else ''spec.containers{'' @ name @ ''}'')"

section \<open>Facts\<close>

lemma trimLeft_head: "trimLeft s = c # cs \<Longrightarrow> c \<noteq> CHR 0x0A"
  using stripPrefixes_done [of "[CHR 0x0A]" spaceEncodings s]
  by (auto simp: trimLeft_def spaceEncodings_def)

lemma trimRight_prefix: "\<exists>ys. s = trimRight s @ ys"
proof -
  obtain xs where "rev s = xs @ stripPrefixes (map rev spaceEncodings) (rev s)"
    using stripPrefixes_suffix by blast
  then have "s = rev (stripPrefixes (map rev spaceEncodings) (rev s)) @ rev xs"
    by (metis rev_append rev_rev_ident)
  then show ?thesis by (auto simp: trimRight_def)
qed

lemma trimSpace_head: "trimSpace s = c # cs \<Longrightarrow> c \<noteq> CHR 0x0A"
proof -
  assume h: "trimSpace s = c # cs"
  obtain ys where "trimLeft s = trimSpace s @ ys"
    using trimRight_prefix [of "trimLeft s"] by (auto simp: trimSpace_def)
  with h have "trimLeft s = c # cs @ ys" by simp
  then show ?thesis by (rule trimLeft_head)
qed

text \<open>The first line of a trimmed string, before it is shortened.\<close>

definition headLine :: "string \<Rightarrow> string" where
  "headLine s = takeWhile (\<lambda>c. c \<noteq> CHR 0x0A) (trimSpace s)"

lemma headLine_cut:
  "(case indexByte (trimSpace s) (CHR 0x0A) of Some i \<Rightarrow> take i (trimSpace s) | None \<Rightarrow> trimSpace s)
     = headLine s"
proof (cases "indexByte (trimSpace s) (CHR 0x0A)")
  case None
  then have "trimSpace s = takeWhile (\<lambda>c. c \<noteq> CHR 0x0A) (trimSpace s)"
    by (intro takeWhile_eq_all_conv [THEN iffD2, symmetric]) (auto simp: indexByte_None)
  with None show ?thesis unfolding headLine_def by (simp only: option.case)
next
  case (Some i)
  then show ?thesis by (simp add: headLine_def take_indexByte)
qed

lemma headLine_empty: "headLine s = '''' \<longleftrightarrow> trimSpace s = ''''"
  using trimSpace_head [of s] by (cases "trimSpace s") (auto simp: headLine_def)

lemma firstLine_alt:
  "firstLine s =
     (if headLine s = '''' then ''(no message)''
      else if length (headLine s) > 240 then take 240 (headLine s) @ ellipsis else headLine s)"
  by (auto simp: firstLine_def headLine_cut Let_def)

lemma firstLine_nonempty: "firstLine s \<noteq> ''''"
  by (auto simp: firstLine_alt ellipsis_def)

lemma headLine_no_newline: "CHR 0x0A \<notin> set (headLine s)"
  by (auto simp: headLine_def dest: set_takeWhileD)

lemma firstLine_no_newline: "CHR 0x0A \<notin> set (firstLine s)"
  using headLine_no_newline [of s]
  by (auto simp: firstLine_alt ellipsis_def dest: in_set_takeD)

lemma firstLine_length: "length (firstLine s) \<le> 243"
  by (auto simp: firstLine_alt ellipsis_def)

section \<open>Properties\<close>

text \<open>
  C34.  Whatever the kubelet wrote, the text that goes into a message is one line: it is never
  empty, holds no newline and is at most 243 bytes long (240 bytes and the ellipsis).
\<close>

theorem firstLine_shape:
  "firstLine s \<noteq> '''' \<and> CHR 0x0A \<notin> set (firstLine s) \<and> length (firstLine s) \<le> 243"
  by (simp add: firstLine_nonempty firstLine_no_newline firstLine_length)

definition roundUnit :: "duration \<Rightarrow> duration" where
  "roundUnit d = (if sint d < sint Minute then Second else if sint d < sint Hour then Minute else Hour)"

lemma roundDur_eq: "roundDur d = durRound d (roundUnit d)"
  by (simp add: roundDur_def roundUnit_def)

lemma roundUnit_bounds: "0 < sint (roundUnit d)" "sint (roundUnit d) \<le> sint Hour"
  by (simp_all add: roundUnit_def)

text \<open>
  The displayed duration is the nearest whole number of seconds, minutes or hours: it is a
  multiple of the unit and at most half a unit away from the measured duration.
\<close>

lemma roundDur_nearest:
  assumes "0 \<le> sint d" "sint d < 2 ^ 63 - sint Hour"
  shows "sint (roundUnit d) dvd sint (roundDur d) \<and>
         2 * \<bar>sint (roundDur d) - sint d\<bar> \<le> sint (roundUnit d)"
proof -
  have "sint d + sint (roundUnit d) < 2 ^ 63"
    using assms(2) roundUnit_bounds(2) [of d] by linarith
  then show ?thesis
    unfolding roundDur_eq using durRound_nearest [OF assms(1) roundUnit_bounds(1)] by blast
qed

lemma stripPrefixes_stop: "find (\<lambda>e. e \<noteq> [] \<and> prefix e s) es = None \<Longrightarrow> stripPrefixes es s = s"
  by (simp add: stripPrefixes.simps [of es s])

lemma validUTF8_ascii_Cons: "of_char c < (128 :: nat) \<Longrightarrow> validUTF8 (c # cs) = validUTF8 cs"
  by simp

lemma validUTF8_replicate: "validUTF8 (replicate n (CHR ''a'') @ s) = validUTF8 s"
  by (induction n) (simp_all add: validUTF8_ascii_Cons del: validUTF8.simps)

definition accented :: string where
  "accented = replicate 239 (CHR ''a'') @ [CHR 0xC3, CHR 0xA9]"

lemma trimSpace_accented: "trimSpace accented = accented"
proof -
  have ne: "accented = CHR ''a'' # replicate 238 (CHR ''a'') @ [CHR 0xC3, CHR 0xA9]"
    by (simp add: accented_def eval_nat_numeral)
  have rv: "rev accented = CHR 0xA9 # CHR 0xC3 # rev (replicate 239 (CHR ''a''))"
    by (simp add: accented_def)
  have "trimLeft accented = accented"
    unfolding trimLeft_def ne by (rule stripPrefixes_stop) (simp add: spaceEncodings_def)
  moreover have "stripPrefixes (map rev spaceEncodings) (rev accented) = rev accented"
    unfolding rv by (rule stripPrefixes_stop) (simp add: spaceEncodings_def)
  then have "trimRight accented = accented" by (simp add: trimRight_def)
  ultimately show ?thesis by (simp add: trimSpace_def)
qed

text \<open>
  C40.  The cut at 240 bytes ignores character boundaries: a well-formed UTF-8 message can be
  cut inside a character, and the shortened text is then no longer well-formed UTF-8.
\<close>

theorem firstLine_splits_character: "\<exists>s. validUTF8 s \<and> \<not> validUTF8 (firstLine s)"
proof (intro exI conjI)
  show "validUTF8 accented"
    unfolding accented_def validUTF8_replicate by (simp add: contByte_def)
  have hl: "headLine accented = accented"
    unfolding headLine_def trimSpace_accented by (auto simp: accented_def takeWhile_eq_all_conv)
  have "firstLine accented = replicate 239 (CHR ''a'') @ [CHR 0xC3] @ ellipsis"
    by (simp add: firstLine_alt hl) (simp add: accented_def)
  then show "\<not> validUTF8 (firstLine accented)"
    by (simp only: validUTF8_replicate) (simp add: ellipsis_def contByte_def)
qed

end
