(* ===== verification/Reliability.thy ===== *)
theory Reliability
  imports Reliability_Util
begin

text \<open>
  \<^verbatim>\<open>src/internal/reliability/reliability.go\<close>: the rule engine.  Every rule maps one object, the
  thresholds and a reference time to a list of alerts.  The argument \<open>isPrint\<close> is the Unicode
  table that \<^verbatim>\<open>%q\<close> consults.
\<close>

section \<open>Data\<close>

type_synonym Severity = string
type_synonym Reason = string

definition SeverityWarning :: Severity where [const_defs]: "SeverityWarning = ''Warning''"
definition SeverityCritical :: Severity where [const_defs]: "SeverityCritical = ''Critical''"

definition EventType :: "Severity \<Rightarrow> string" where
  "EventType s = ''Warning''"

definition ReasonCrashLoopBackOff :: Reason where
  [const_defs]: "ReasonCrashLoopBackOff = ''CrashLoopBackOff''"
definition ReasonOOMKilled :: Reason where [const_defs]: "ReasonOOMKilled = ''OOMKilled''"
definition ReasonImagePullError :: Reason where
  [const_defs]: "ReasonImagePullError = ''ImagePullError''"
definition ReasonHighRestartCount :: Reason where
  [const_defs]: "ReasonHighRestartCount = ''HighRestartCount''"
definition ReasonRapidRestart :: Reason where [const_defs]: "ReasonRapidRestart = ''RapidRestart''"
definition ReasonPodStuckPending :: Reason where
  [const_defs]: "ReasonPodStuckPending = ''PodStuckPending''"
definition ReasonNodeNotReady :: Reason where [const_defs]: "ReasonNodeNotReady = ''NodeNotReady''"
definition ReasonNodePressure :: Reason where [const_defs]: "ReasonNodePressure = ''NodePressure''"

record Alert =
  alReason :: Reason
  alSeverity :: Severity
  alKind :: string
  alNamespace :: string
  alName :: string
  alUID :: string
  alContainer :: string
  alMessage :: string

definition Key :: "Alert \<Rightarrow> string" where
  "Key a = alReason a @ ''|'' @ alKind a @ ''|'' @ alNamespace a @ ''/'' @ alName a
             @ ''|'' @ alContainer a"

definition ObjectReferenceOf :: "Alert \<Rightarrow> ObjectReference" where
  "ObjectReferenceOf a =
     (let ref = \<lparr>refKind = alKind a, refNamespace = alNamespace a, refName = alName a,
                 refUID = typesUID (alUID a), refAPIVersion = '''', refFieldPath = ''''\<rparr>;
          ref = (if alKind a = ''Pod''
                 then ref\<lparr>refAPIVersion := ''v1'',
                          refFieldPath := fieldPathForContainer (alContainer a)\<rparr>
                 else ref)
      in if alKind a = ''Node'' then ref\<lparr>refAPIVersion := ''v1''\<rparr> else ref)"

record Thresholds =
  RestartCountWarn :: int32
  PendingGracePeriod :: duration
  NodeNotReadyGracePeriod :: duration

definition DefaultThresholds :: Thresholds where
  "DefaultThresholds =
     \<lparr>RestartCountWarn = 5, PendingGracePeriod = 5 * Minute, NodeNotReadyGracePeriod = 2 * Minute\<rparr>"

section \<open>Pods\<close>

definition oomTermination :: "ContainerStatus \<Rightarrow> ContainerStateTerminated option" where
  "oomTermination cs =
     (case Terminated (csState cs) of
        Some s \<Rightarrow>
          if tReason s = ''OOMKilled'' then Some s
          else (case Terminated (csLastTerminationState cs) of
                  Some s \<Rightarrow> if tReason s = ''OOMKilled'' then Some s else None
                | None \<Rightarrow> None)
      | None \<Rightarrow>
          (case Terminated (csLastTerminationState cs) of
             Some s \<Rightarrow> if tReason s = ''OOMKilled'' then Some s else None
           | None \<Rightarrow> None))"

fun pendingHintLoop :: "PodCondition list \<Rightarrow> string" where
  "pendingHintLoop [] = ''still Pending''"
| "pendingHintLoop (c # cs) =
     (if pcType c = PodScheduled \<and> pcStatus c \<noteq> ConditionTrue then
        (if pcMessage c \<noteq> '''' then ''not scheduled: '' @ firstLine (pcMessage c)
         else ''not scheduled ('' @ pcReason c @ '')'')
      else pendingHintLoop cs)"

definition pendingHint :: "Pod \<Rightarrow> string" where
  "pendingHint pod = pendingHintLoop (podConditions pod)"

text \<open>The formatted messages, one definition per \<^verbatim>\<open>fmt.Sprintf\<close>.\<close>

definition crashLoopMessage :: "(nat \<Rightarrow> bool) \<Rightarrow> ContainerStatus \<Rightarrow> ContainerStateWaiting \<Rightarrow> string" where
  "crashLoopMessage isPrint cs w =
     ''Container '' @ quote isPrint (csName cs) @ '' in CrashLoopBackOff after ''
     @ intString (sint (csRestartCount cs)) @ '' restarts: '' @ firstLine (wMessage w)"

definition imagePullMessage :: "(nat \<Rightarrow> bool) \<Rightarrow> ContainerStatus \<Rightarrow> ContainerStateWaiting \<Rightarrow> string" where
  "imagePullMessage isPrint cs w =
     ''Container '' @ quote isPrint (csName cs) @ '' cannot pull its image (''
     @ wReason w @ ''): '' @ firstLine (wMessage w)"

definition oomMessage :: "(nat \<Rightarrow> bool) \<Rightarrow> ContainerStatus \<Rightarrow> ContainerStateTerminated \<Rightarrow> string" where
  "oomMessage isPrint cs term =
     ''Container '' @ quote isPrint (csName cs) @ '' was OOMKilled (exit code ''
     @ intString (sint (tExitCode term)) @ '') after '' @ intString (sint (csRestartCount cs))
     @ '' restarts''"

definition highRestartMessage :: "(nat \<Rightarrow> bool) \<Rightarrow> ContainerStatus \<Rightarrow> Thresholds \<Rightarrow> string" where
  "highRestartMessage isPrint cs t =
     ''Container '' @ quote isPrint (csName cs) @ '' has restarted ''
     @ intString (sint (csRestartCount cs)) @ '' times (>= ''
     @ intString (sint (RestartCountWarn t)) @ '') and is not Ready''"

definition pendingMessage :: "Thresholds \<Rightarrow> Pod \<Rightarrow> duration \<Rightarrow> string" where
  "pendingMessage t pod age =
     ''Pod has been Pending for '' @ durationString (roundDur age) @ '' (>= ''
     @ durationString (PendingGracePeriod t) @ ''); '' @ pendingHint pod"

definition notReadyMessage :: "Thresholds \<Rightarrow> NodeCondition \<Rightarrow> duration \<Rightarrow> string" where
  "notReadyMessage t cond since =
     ''Node Ready='' @ ncStatus cond @ '' for '' @ durationString (roundDur since) @ '' (>= ''
     @ durationString (NodeNotReadyGracePeriod t) @ ''): '' @ firstLine (ncMessage cond)"

definition pressureMessage :: "NodeCondition \<Rightarrow> string" where
  "pressureMessage cond =
     ''Node reports '' @ ncType cond @ ''=True: '' @ firstLine (ncMessage cond)"

text \<open>One iteration of the loop over the container statuses.\<close>

definition evalContainer ::
  "(nat \<Rightarrow> bool) \<Rightarrow> Thresholds \<Rightarrow> Alert \<Rightarrow> ContainerStatus \<Rightarrow> Alert list \<times> bool \<Rightarrow> Alert list \<times> bool"
where
  "evalContainer isPrint t base cs acc =
     (let c = base\<lparr>alContainer := csName cs\<rparr>;
          (alerts, saw) = acc;
          (alerts, saw) =
            (case Waiting (csState cs) of
               Some w \<Rightarrow>
                 if wReason w = ''CrashLoopBackOff'' then
                   (alerts @ [c\<lparr>alReason := ReasonCrashLoopBackOff, alSeverity := SeverityCritical,
                      alMessage := crashLoopMessage isPrint cs w\<rparr>], True)
                 else (alerts, saw)
             | None \<Rightarrow> (alerts, saw));
          (alerts, saw) =
            (case Waiting (csState cs) of
               Some w \<Rightarrow>
                 if wReason w = ''ImagePullBackOff'' \<or> wReason w = ''ErrImagePull'' then
                   (alerts @ [c\<lparr>alReason := ReasonImagePullError, alSeverity := SeverityWarning,
                      alMessage := imagePullMessage isPrint cs w\<rparr>], True)
                 else (alerts, saw)
             | None \<Rightarrow> (alerts, saw));
          alerts =
            (case oomTermination cs of
               Some term \<Rightarrow>
                 alerts @ [c\<lparr>alReason := ReasonOOMKilled, alSeverity := SeverityCritical,
                   alMessage := oomMessage isPrint cs term\<rparr>]
             | None \<Rightarrow> alerts);
          alerts =
            (if sint (csRestartCount cs) \<ge> sint (RestartCountWarn t) \<and> \<not> csReady cs then
               alerts @ [c\<lparr>alReason := ReasonHighRestartCount, alSeverity := SeverityWarning,
                 alMessage := highRestartMessage isPrint cs t\<rparr>]
             else alerts)
      in (alerts, saw))"

definition emptyAlert :: Alert where
  "emptyAlert = \<lparr>alReason = '''', alSeverity = '''', alKind = '''', alNamespace = '''',
     alName = '''', alUID = '''', alContainer = '''', alMessage = ''''\<rparr>"

definition podBase :: "Pod \<Rightarrow> Alert" where
  "podBase pod = emptyAlert\<lparr>alKind := ''Pod'', alNamespace := podNamespace pod,
     alName := podName pod, alUID := podUID pod\<rparr>"

definition EvaluatePod :: "(nat \<Rightarrow> bool) \<Rightarrow> Pod option \<Rightarrow> Thresholds \<Rightarrow> time \<Rightarrow> Alert list" where
  "EvaluatePod isPrint p t now =
     (case p of None \<Rightarrow> []
      | Some pod \<Rightarrow>
        if podDeletionTimestamp pod \<noteq> None then []
        else
          (let base = podBase pod;
               (alerts, saw) = fold (evalContainer isPrint t base) (podContainerStatuses pod) ([], False)
           in if podPhase pod = PodPending \<and> \<not> saw then
                (let age = timeSub now (podCreationTimestamp pod) in
                 if sint age \<ge> sint (PendingGracePeriod t) then
                   alerts @ [base\<lparr>alReason := ReasonPodStuckPending, alSeverity := SeverityWarning,
                     alMessage := pendingMessage t pod age\<rparr>]
                 else alerts)
              else alerts))"

section \<open>Nodes\<close>

definition evalCondition :: "Thresholds \<Rightarrow> time \<Rightarrow> Alert \<Rightarrow> NodeCondition \<Rightarrow> Alert list \<Rightarrow> Alert list" where
  "evalCondition t now base cond alerts =
     (if ncType cond = NodeReady then
        (if ncStatus cond \<noteq> ConditionTrue then
           (let since = timeSub now (ncLastTransitionTime cond) in
            if sint since \<ge> sint (NodeNotReadyGracePeriod t) then
              alerts @ [base\<lparr>alReason := ReasonNodeNotReady, alSeverity := SeverityCritical,
                alMessage := notReadyMessage t cond since\<rparr>]
            else alerts)
         else alerts)
      else if ncType cond = NodeMemoryPressure \<or> ncType cond = NodeDiskPressure
              \<or> ncType cond = NodePIDPressure then
        (if ncStatus cond = ConditionTrue then
           alerts @ [base\<lparr>alReason := ReasonNodePressure, alSeverity := SeverityWarning,
             alMessage := pressureMessage cond\<rparr>]
         else alerts)
      else alerts)"

definition nodeBase :: "Node \<Rightarrow> Alert" where
  "nodeBase node = emptyAlert\<lparr>alKind := ''Node'', alName := nodeName node, alUID := nodeUID node\<rparr>"

definition EvaluateNode :: "Node option \<Rightarrow> Thresholds \<Rightarrow> time \<Rightarrow> Alert list" where
  "EvaluateNode n t now =
     (case n of None \<Rightarrow> []
      | Some node \<Rightarrow> fold (evalCondition t now (nodeBase node)) (nodeConditions node) [])"

section \<open>The rule table\<close>

text \<open>
  The README's rule table, one introduction rule per row: reason, severity and container of
  every alert that applies to a Pod or a Node.
\<close>

definition waitsFor :: "ContainerStatus \<Rightarrow> string \<Rightarrow> bool" where
  "waitsFor cs r \<longleftrightarrow> (case Waiting (csState cs) of None \<Rightarrow> False | Some w \<Rightarrow> wReason w = r)"

definition oomKilled :: "ContainerState \<Rightarrow> bool" where
  "oomKilled st \<longleftrightarrow> (case Terminated st of None \<Rightarrow> False | Some s \<Rightarrow> tReason s = ''OOMKilled'')"

definition waitingProblem :: "ContainerStatus \<Rightarrow> bool" where
  "waitingProblem cs \<longleftrightarrow>
     waitsFor cs ''CrashLoopBackOff'' \<or> waitsFor cs ''ImagePullBackOff'' \<or> waitsFor cs ''ErrImagePull''"

inductive pod_rule :: "Thresholds \<Rightarrow> time \<Rightarrow> Pod \<Rightarrow> Reason \<Rightarrow> Severity \<Rightarrow> string \<Rightarrow> bool"
  for t now pod where
  crash_loop: "cs \<in> set (podContainerStatuses pod) \<Longrightarrow> waitsFor cs ''CrashLoopBackOff'' \<Longrightarrow>
     pod_rule t now pod ReasonCrashLoopBackOff SeverityCritical (csName cs)"
| image_pull: "cs \<in> set (podContainerStatuses pod) \<Longrightarrow>
     waitsFor cs ''ImagePullBackOff'' \<or> waitsFor cs ''ErrImagePull'' \<Longrightarrow>
     pod_rule t now pod ReasonImagePullError SeverityWarning (csName cs)"
| oom: "cs \<in> set (podContainerStatuses pod) \<Longrightarrow>
     oomKilled (csState cs) \<or> oomKilled (csLastTerminationState cs) \<Longrightarrow>
     pod_rule t now pod ReasonOOMKilled SeverityCritical (csName cs)"
| high_restarts: "cs \<in> set (podContainerStatuses pod) \<Longrightarrow>
     sint (RestartCountWarn t) \<le> sint (csRestartCount cs) \<Longrightarrow> \<not> csReady cs \<Longrightarrow>
     pod_rule t now pod ReasonHighRestartCount SeverityWarning (csName cs)"
| stuck_pending: "podPhase pod = PodPending \<Longrightarrow>
     \<forall>cs \<in> set (podContainerStatuses pod). \<not> waitingProblem cs \<Longrightarrow>
     sint (PendingGracePeriod t) \<le> sint (timeSub now (podCreationTimestamp pod)) \<Longrightarrow>
     pod_rule t now pod ReasonPodStuckPending SeverityWarning ''''"

inductive node_rule :: "Thresholds \<Rightarrow> time \<Rightarrow> Node \<Rightarrow> Reason \<Rightarrow> Severity \<Rightarrow> bool"
  for t now node where
  not_ready: "c \<in> set (nodeConditions node) \<Longrightarrow> ncType c = NodeReady \<Longrightarrow>
     ncStatus c \<noteq> ConditionTrue \<Longrightarrow>
     sint (NodeNotReadyGracePeriod t) \<le> sint (timeSub now (ncLastTransitionTime c)) \<Longrightarrow>
     node_rule t now node ReasonNodeNotReady SeverityCritical"
| pressure: "c \<in> set (nodeConditions node) \<Longrightarrow>
     ncType c \<in> {NodeMemoryPressure, NodeDiskPressure, NodePIDPressure} \<Longrightarrow>
     ncStatus c = ConditionTrue \<Longrightarrow>
     node_rule t now node ReasonNodePressure SeverityWarning"

inductive_simps pod_rule_iff: "pod_rule t now pod r s c"
inductive_simps node_rule_iff: "node_rule t now node r s"

section \<open>The engine computes the rule table\<close>

definition containerAlerts :: "(nat \<Rightarrow> bool) \<Rightarrow> Thresholds \<Rightarrow> Alert \<Rightarrow> ContainerStatus \<Rightarrow> Alert list" where
  "containerAlerts isPrint t base cs = fst (evalContainer isPrint t base cs ([], False))"

text \<open>The reasons one container contributes, in the order the loop appends them.\<close>

definition containerReasons :: "Thresholds \<Rightarrow> ContainerStatus \<Rightarrow> (Reason \<times> Severity) list" where
  "containerReasons t cs =
     (if waitsFor cs ''CrashLoopBackOff'' then [(ReasonCrashLoopBackOff, SeverityCritical)] else []) @
     (if waitsFor cs ''ImagePullBackOff'' \<or> waitsFor cs ''ErrImagePull''
      then [(ReasonImagePullError, SeverityWarning)] else []) @
     (if oomKilled (csState cs) \<or> oomKilled (csLastTerminationState cs)
      then [(ReasonOOMKilled, SeverityCritical)] else []) @
     (if sint (RestartCountWarn t) \<le> sint (csRestartCount cs) \<and> \<not> csReady cs
      then [(ReasonHighRestartCount, SeverityWarning)] else [])"

lemma containerReasons_mem:
  "(r, s) \<in> set (containerReasons t cs) \<longleftrightarrow>
     (waitsFor cs ''CrashLoopBackOff'' \<and> r = ReasonCrashLoopBackOff \<and> s = SeverityCritical) \<or>
     ((waitsFor cs ''ImagePullBackOff'' \<or> waitsFor cs ''ErrImagePull'') \<and>
        r = ReasonImagePullError \<and> s = SeverityWarning) \<or>
     ((oomKilled (csState cs) \<or> oomKilled (csLastTerminationState cs)) \<and>
        r = ReasonOOMKilled \<and> s = SeverityCritical) \<or>
     (sint (RestartCountWarn t) \<le> sint (csRestartCount cs) \<and> \<not> csReady cs \<and>
        r = ReasonHighRestartCount \<and> s = SeverityWarning)"
  unfolding containerReasons_def set_append Un_iff by (simp split: if_split) blast

lemma oomTermination_iff:
  "(oomTermination cs \<noteq> None) \<longleftrightarrow> oomKilled (csState cs) \<or> oomKilled (csLastTerminationState cs)"
  by (auto simp: oomTermination_def oomKilled_def split: option.splits)

lemma messages_nonempty [simp]:
  "crashLoopMessage isPrint cs w \<noteq> ''''" "imagePullMessage isPrint cs w \<noteq> ''''"
  "oomMessage isPrint cs term \<noteq> ''''" "highRestartMessage isPrint cs t \<noteq> ''''"
  "pendingMessage t pod age \<noteq> ''''" "notReadyMessage t cond since \<noteq> ''''"
  "pressureMessage cond \<noteq> ''''"
  by (simp_all add: crashLoopMessage_def imagePullMessage_def oomMessage_def highRestartMessage_def
      pendingMessage_def notReadyMessage_def pressureMessage_def)

lemma evalContainer_acc:
  "evalContainer isPrint t base cs (alerts, saw) =
     (alerts @ containerAlerts isPrint t base cs, saw \<or> waitingProblem cs)"
  by (auto simp: evalContainer_def containerAlerts_def Let_def waitingProblem_def waitsFor_def
      split: option.splits)

lemma fold_evalContainer:
  "fold (evalContainer isPrint t base) css (alerts, saw) =
     (alerts @ concat (map (containerAlerts isPrint t base) css), saw \<or> (\<exists>cs \<in> set css. waitingProblem cs))"
  by (induction css arbitrary: alerts saw) (auto simp: evalContainer_acc)

lemma containerAlerts_tags:
  "map (\<lambda>a. (alReason a, alSeverity a)) (containerAlerts isPrint t base cs) = containerReasons t cs"
proof -
  have "oomKilled (csState cs) \<or> oomKilled (csLastTerminationState cs) \<longleftrightarrow> oomTermination cs \<noteq> None"
    by (simp only: oomTermination_iff)
  then show ?thesis
    by (cases "Waiting (csState cs)"; cases "oomTermination cs")
      (simp_all add: evalContainer_def containerAlerts_def containerReasons_def waitsFor_def Let_def)
qed

lemma containerAlerts_identity:
  assumes "a \<in> set (containerAlerts isPrint t base cs)"
  shows "alKind a = alKind base" "alNamespace a = alNamespace base" "alName a = alName base"
    "alUID a = alUID base" "alContainer a = csName cs" "alMessage a \<noteq> ''''"
  using assms
  by (auto simp: evalContainer_def containerAlerts_def Let_def split: option.splits if_splits)

definition pendingAlert :: "Thresholds \<Rightarrow> time \<Rightarrow> Pod \<Rightarrow> Alert" where
  "pendingAlert t now pod =
     (let age = timeSub now (podCreationTimestamp pod) in
      (podBase pod)\<lparr>alReason := ReasonPodStuckPending, alSeverity := SeverityWarning,
        alMessage := pendingMessage t pod age\<rparr>)"

definition stuckPending :: "Thresholds \<Rightarrow> time \<Rightarrow> Pod \<Rightarrow> bool" where
  "stuckPending t now pod \<longleftrightarrow>
     podPhase pod = PodPending \<and> (\<forall>cs \<in> set (podContainerStatuses pod). \<not> waitingProblem cs) \<and>
     sint (PendingGracePeriod t) \<le> sint (timeSub now (podCreationTimestamp pod))"

lemma EvaluatePod_live:
  "podDeletionTimestamp pod = None \<Longrightarrow>
   EvaluatePod isPrint (Some pod) t now =
     concat (map (containerAlerts isPrint t (podBase pod)) (podContainerStatuses pod)) @
     (if stuckPending t now pod then [pendingAlert t now pod] else [])"
  by (auto simp: EvaluatePod_def fold_evalContainer stuckPending_def pendingAlert_def Let_def)

lemma EvaluatePod_gone: "podDeletionTimestamp pod \<noteq> None \<Longrightarrow> EvaluatePod isPrint (Some pod) t now = []"
  by (simp add: EvaluatePod_def)

lemma podBase_simps [simp]:
  "alKind (podBase pod) = ''Pod''" "alNamespace (podBase pod) = podNamespace pod"
  "alName (podBase pod) = podName pod" "alUID (podBase pod) = podUID pod"
  "alContainer (podBase pod) = ''''"
  by (simp_all add: podBase_def emptyAlert_def)

lemma pendingAlert_simps [simp]:
  "alKind (pendingAlert t now pod) = ''Pod''" "alNamespace (pendingAlert t now pod) = podNamespace pod"
  "alName (pendingAlert t now pod) = podName pod" "alUID (pendingAlert t now pod) = podUID pod"
  "alContainer (pendingAlert t now pod) = ''''" "alReason (pendingAlert t now pod) = ReasonPodStuckPending"
  "alSeverity (pendingAlert t now pod) = SeverityWarning" "alMessage (pendingAlert t now pod) \<noteq> ''''"
  by (simp_all add: pendingAlert_def Let_def)

lemma containerReasons_iff:
  "(r, s) \<in> set (containerReasons t cs) \<longleftrightarrow>
     (\<exists>a \<in> set (containerAlerts isPrint t base cs). alReason a = r \<and> alSeverity a = s)"
  by (subst containerAlerts_tags [symmetric, of t cs isPrint base]) auto

lemma EvaluatePod_mem:
  assumes "podDeletionTimestamp pod = None"
  shows "(\<exists>a \<in> set (EvaluatePod isPrint (Some pod) t now).
            alReason a = r \<and> alSeverity a = s \<and> alContainer a = c) \<longleftrightarrow>
     (\<exists>cs \<in> set (podContainerStatuses pod). c = csName cs \<and> (r, s) \<in> set (containerReasons t cs)) \<or>
     (stuckPending t now pod \<and> r = ReasonPodStuckPending \<and> s = SeverityWarning \<and> c = '''')"
  by (auto simp: EvaluatePod_live [OF assms] containerReasons_iff [where isPrint = isPrint and base = "podBase pod"]
      dest: containerAlerts_identity(5))

lemma pod_rule_alt:
  "pod_rule t now pod r s c \<longleftrightarrow>
     (\<exists>cs \<in> set (podContainerStatuses pod). c = csName cs \<and> (r, s) \<in> set (containerReasons t cs)) \<or>
     (stuckPending t now pod \<and> r = ReasonPodStuckPending \<and> s = SeverityWarning \<and> c = '''')"
  unfolding pod_rule_iff containerReasons_mem stuckPending_def by blast

definition demoContainer :: ContainerStatus where
  "demoContainer = \<lparr>csName = ''app'', csRestartCount = 7, csReady = False,
     csState = \<lparr>Waiting = Some \<lparr>wReason = ''CrashLoopBackOff'', wMessage = ''back-off''\<rparr>,
       Terminated = None\<rparr>,
     csLastTerminationState = \<lparr>Waiting = None, Terminated = None\<rparr>\<rparr>"

definition demoPod :: Pod where
  "demoPod = \<lparr>podNamespace = ''default'', podName = ''crash'', podUID = ''u1'',
     podDeletionTimestamp = None, podCreationTimestamp = zeroTime, podPhase = ''Running'',
     podContainerStatuses = [demoContainer], podConditions = []\<rparr>"

section \<open>Nodes\<close>

definition conditionAlerts :: "Thresholds \<Rightarrow> time \<Rightarrow> Alert \<Rightarrow> NodeCondition \<Rightarrow> Alert list" where
  "conditionAlerts t now base cond = evalCondition t now base cond []"

lemma evalCondition_acc:
  "evalCondition t now base cond alerts = alerts @ conditionAlerts t now base cond"
  by (simp add: evalCondition_def conditionAlerts_def Let_def)

lemma fold_evalCondition:
  "fold (evalCondition t now base) conds alerts = alerts @ concat (map (conditionAlerts t now base) conds)"
  by (induction conds arbitrary: alerts) (auto simp: evalCondition_acc)

lemma EvaluateNode_concat:
  "EvaluateNode (Some node) t now =
     concat (map (conditionAlerts t now (nodeBase node)) (nodeConditions node))"
  by (simp add: EvaluateNode_def fold_evalCondition)

lemma pressure_not_ready: "NodeReady \<notin> {NodeMemoryPressure, NodeDiskPressure, NodePIDPressure}"
  by (simp add: const_defs)

lemma conditionAlerts_iff:
  "(\<exists>a \<in> set (conditionAlerts t now base cond). alReason a = r \<and> alSeverity a = s) \<longleftrightarrow>
     (ncType cond = NodeReady \<and> ncStatus cond \<noteq> ConditionTrue \<and>
      sint (NodeNotReadyGracePeriod t) \<le> sint (timeSub now (ncLastTransitionTime cond)) \<and>
      r = ReasonNodeNotReady \<and> s = SeverityCritical) \<or>
     (ncType cond \<in> {NodeMemoryPressure, NodeDiskPressure, NodePIDPressure} \<and>
      ncStatus cond = ConditionTrue \<and> r = ReasonNodePressure \<and> s = SeverityWarning)"
  using pressure_not_ready
  by (cases "ncType cond = NodeReady") (auto simp: conditionAlerts_def evalCondition_def Let_def)

lemma conditionAlerts_identity:
  assumes "a \<in> set (conditionAlerts t now base cond)"
  shows "alKind a = alKind base" "alNamespace a = alNamespace base" "alName a = alName base"
    "alUID a = alUID base" "alContainer a = alContainer base"
    "alReason a = ReasonNodeNotReady \<or> alReason a = ReasonNodePressure"
  using assms by (auto simp: conditionAlerts_def evalCondition_def Let_def split: if_splits)

lemma nodeBase_simps [simp]:
  "alKind (nodeBase node) = ''Node''" "alNamespace (nodeBase node) = ''''"
  "alName (nodeBase node) = nodeName node" "alUID (nodeBase node) = nodeUID node"
  "alContainer (nodeBase node) = ''''"
  by (simp_all add: nodeBase_def emptyAlert_def)

section \<open>Alert identity\<close>

text \<open>
  What every producer of alerts promises: its alerts name the object they are about, and their
  reason is one of the program's constants, so it does not hold the key separator.
\<close>

definition bar_free :: "string \<Rightarrow> bool" where
  "bar_free s \<longleftrightarrow> CHR 0x7C \<notin> set s"

lemma plain_bar_free: "plain s \<Longrightarrow> bar_free s"
  by (simp add: plain_def bar_free_def)

lemma reasons_bar_free [simp]:
  "bar_free ReasonCrashLoopBackOff" "bar_free ReasonOOMKilled" "bar_free ReasonImagePullError"
  "bar_free ReasonHighRestartCount" "bar_free ReasonRapidRestart" "bar_free ReasonPodStuckPending"
  "bar_free ReasonNodeNotReady" "bar_free ReasonNodePressure"
  by (simp_all add: const_defs bar_free_def)

text \<open>The part of the key that names the object.\<close>

definition objectPart :: "string \<Rightarrow> string \<Rightarrow> string \<Rightarrow> string" where
  "objectPart kind ns nm = kind @ ''|'' @ ns @ ''/'' @ nm"

lemma Key_split: "Key a = alReason a @ CHR 0x7C # objectPart (alKind a) (alNamespace a) (alName a) @ CHR 0x7C # alContainer a"
  by (simp add: Key_def objectPart_def)

lemma objectPart_inject:
  assumes "bar_free k" "bar_free k'" "plain ns" "plain ns'"
  shows "objectPart k ns nm = objectPart k' ns' nm' \<longleftrightarrow> k = k' \<and> ns = ns' \<and> nm = nm'"
  using assms append_sep_inject [of "CHR 0x7C" k k'] append_sep_inject [of "CHR ''/''" ns ns']
  by (auto simp: objectPart_def bar_free_def plain_def)

text \<open>On one object, the key identifies exactly the reason and the container.\<close>

lemma Key_same_object:
  assumes "bar_free (alReason a)" "bar_free (alReason b)" "alKind a = alKind b"
    "alNamespace a = alNamespace b" "alName a = alName b"
  shows "Key a = Key b \<longleftrightarrow> alReason a = alReason b \<and> alContainer a = alContainer b"
  using assms append_sep_inject [of "CHR 0x7C" "alReason a" "alReason b"]
  by (auto simp: Key_split bar_free_def)

lemma objectPart_bar_cancel:
  assumes "bar_free k" "bar_free k'" "plain ns" "plain ns'" "plain nm" "plain nm'"
  shows "objectPart k ns nm @ CHR 0x7C # c = objectPart k' ns' nm' @ CHR 0x7C # c'
           \<longleftrightarrow> k = k' \<and> ns = ns' \<and> nm = nm' \<and> c = c'"
proof -
  have "objectPart k ns nm @ CHR 0x7C # c = k @ CHR 0x7C # ((ns @ ''/'' @ nm) @ CHR 0x7C # c)"
    for k ns nm c by (simp add: objectPart_def)
  moreover have "CHR 0x7C \<notin> set (ns @ ''/'' @ nm)" "CHR 0x7C \<notin> set (ns' @ ''/'' @ nm')"
    using assms by (auto simp: plain_def)
  ultimately show ?thesis
    using assms append_sep_inject [of "CHR 0x7C" k k'] append_sep_inject [of "CHR ''/''" ns ns']
      append_sep_inject [of "CHR 0x7C" "ns @ ''/'' @ nm" "ns' @ ''/'' @ nm'"]
    by (auto simp: bar_free_def plain_def)
qed

locale alert_source =
  fixes eval :: "'o \<Rightarrow> time \<Rightarrow> Alert list"
    and kind :: string
    and ns :: "'o \<Rightarrow> string"
    and nm :: "'o \<Rightarrow> string"
  assumes names_object: "a \<in> set (eval x now) \<Longrightarrow> alKind a = kind \<and> alNamespace a = ns x \<and> alName a = nm x"
    and reason_bar_free: "a \<in> set (eval x now) \<Longrightarrow> bar_free (alReason a)"
    and kind_bar_free: "bar_free kind"
begin

lemma key_of_object:
  assumes "k \<in> Key ` set (eval x now)"
  shows "\<exists>r c. bar_free r \<and> k = r @ CHR 0x7C # objectPart kind (ns x) (nm x) @ CHR 0x7C # c"
proof -
  from assms obtain a where a: "a \<in> set (eval x now)" "k = Key a" by auto
  show ?thesis
    using names_object [OF a(1)] reason_bar_free [OF a(1)] unfolding a(2) Key_split by auto
qed

text \<open>Two objects with different names never share a key.\<close>

lemma keys_disjoint:
  assumes "plain (ns x)" "plain (nm x)" "plain (ns y)" "plain (nm y)"
    and "a \<in> set (eval x now)" "b \<in> set (eval y now')" "Key a = Key b"
  shows "ns x = ns y \<and> nm x = nm y"
proof -
  note ids = names_object [OF assms(5)] names_object [OF assms(6)]
  have bar: "CHR 0x7C \<notin> set (alReason a)" "CHR 0x7C \<notin> set (alReason b)"
    using reason_bar_free [OF assms(5)] reason_bar_free [OF assms(6)] by (auto simp: bar_free_def)
  have "objectPart kind (ns x) (nm x) @ CHR 0x7C # alContainer a =
        objectPart kind (ns y) (nm y) @ CHR 0x7C # alContainer b"
    using assms(7) ids append_sep_inject [OF bar] by (simp add: Key_split)
  then show ?thesis
    using objectPart_bar_cancel [OF kind_bar_free kind_bar_free assms(1,3,2,4)] by blast
qed

end

lemma EvaluatePod_identity:
  assumes "a \<in> set (EvaluatePod isPrint (Some pod) t now)"
  shows "alKind a = ''Pod''" "alNamespace a = podNamespace pod" "alName a = podName pod"
    "alUID a = podUID pod" "alMessage a \<noteq> ''''"
proof -
  have live: "podDeletionTimestamp pod = None"
    using assms EvaluatePod_gone by fastforce
  show "alKind a = ''Pod''" "alNamespace a = podNamespace pod" "alName a = podName pod"
    "alUID a = podUID pod" "alMessage a \<noteq> ''''"
    using assms by (auto simp: EvaluatePod_live [OF live] containerAlerts_identity split: if_splits)
qed

lemma EvaluateNode_identity:
  assumes "a \<in> set (EvaluateNode (Some node) t now)"
  shows "alKind a = ''Node''" "alNamespace a = ''''" "alName a = nodeName node"
    "alUID a = nodeUID node" "alContainer a = ''''"
    "alReason a = ReasonNodeNotReady \<or> alReason a = ReasonNodePressure"
  using assms by (auto simp: EvaluateNode_concat dest: conditionAlerts_identity)

subsection \<open>The rule tables\<close>

text \<open>What identifies an alert: the object and container it is about, its reason and its severity.\<close>

definition identified :: "Alert \<Rightarrow> string \<times> string \<times> string \<times> string \<times> string \<times> string \<times> string" where
  "identified a = (alKind a, alNamespace a, alName a, alUID a, alContainer a, alReason a, alSeverity a)"

text \<open>
  C1.  For a Pod that is not being deleted, the alerts the rule engine raises are exactly those of
  the rule table: one for each row that applies, with its reason, severity and container, and
  all of them carry the kind, namespace, name and UID of the Pod.
\<close>

theorem EvaluatePod_rule_table:
  assumes "podDeletionTimestamp pod = None"
  shows "identified ` set (EvaluatePod isPrint (Some pod) t now) =
     {(''Pod'', podNamespace pod, podName pod, podUID pod, c, r, s) | c r s. pod_rule t now pod r s c}"
    (is "?lhs = ?rhs")
proof (rule set_eqI)
  fix x
  let ?alerts = "set (EvaluatePod isPrint (Some pod) t now)"
  have "identified a = (''Pod'', podNamespace pod, podName pod, podUID pod, alContainer a, alReason a, alSeverity a)"
    if "a \<in> ?alerts" for a
    using EvaluatePod_identity [OF that] by (simp add: identified_def)
  then have "x \<in> ?lhs \<longleftrightarrow> (\<exists>a \<in> ?alerts. x =
      (''Pod'', podNamespace pod, podName pod, podUID pod, alContainer a, alReason a, alSeverity a))"
    unfolding image_iff by (intro bex_cong) simp_all
  also have "\<dots> \<longleftrightarrow> (\<exists>c r s. x = (''Pod'', podNamespace pod, podName pod, podUID pod, c, r, s) \<and>
      (\<exists>a \<in> ?alerts. alReason a = r \<and> alSeverity a = s \<and> alContainer a = c))" by blast
  also have "\<dots> \<longleftrightarrow> x \<in> ?rhs"
    unfolding EvaluatePod_mem [OF assms] pod_rule_alt by blast
  finally show "x \<in> ?lhs \<longleftrightarrow> x \<in> ?rhs" .
qed

theorem EvaluatePod_rule_table_witness:
  "(''Pod'', ''default'', ''crash'', ''u1'', ''app'', ReasonHighRestartCount, SeverityWarning) \<in>
     identified ` set (EvaluatePod (\<lambda>_. True) (Some demoPod) DefaultThresholds zeroTime)"
proof -
  have live: "podDeletionTimestamp demoPod = None" by (simp add: demoPod_def)
  have "pod_rule DefaultThresholds zeroTime demoPod ReasonHighRestartCount SeverityWarning (csName demoContainer)"
    by (rule pod_rule.high_restarts) (simp_all add: demoPod_def demoContainer_def DefaultThresholds_def)
  then show ?thesis
    unfolding EvaluatePod_rule_table [OF live] by (simp add: demoContainer_def demoPod_def)
qed

text \<open>
  C10.  The alerts raised for a node are exactly those of the node rule table: one for each reason
  and severity some condition of the node gives, without a container or a namespace, and with
  the name and UID of the node.
\<close>

theorem EvaluateNode_rule_table:
  "identified ` set (EvaluateNode (Some node) t now) =
     {(''Node'', '''', nodeName node, nodeUID node, '''', r, s) | r s. node_rule t now node r s}"
    (is "?lhs = ?rhs")
proof (rule set_eqI)
  fix x
  let ?alerts = "set (EvaluateNode (Some node) t now)"
  have "identified a = (''Node'', '''', nodeName node, nodeUID node, '''', alReason a, alSeverity a)"
    if "a \<in> ?alerts" for a
    using EvaluateNode_identity [OF that] by (simp add: identified_def)
  then have "x \<in> ?lhs \<longleftrightarrow>
      (\<exists>a \<in> ?alerts. x = (''Node'', '''', nodeName node, nodeUID node, '''', alReason a, alSeverity a))"
    unfolding image_iff by (intro bex_cong) simp_all
  also have "\<dots> \<longleftrightarrow> (\<exists>r s. x = (''Node'', '''', nodeName node, nodeUID node, '''', r, s) \<and>
      (\<exists>a \<in> ?alerts. alReason a = r \<and> alSeverity a = s))" by blast
  also have "\<dots> \<longleftrightarrow> (\<exists>r s. x = (''Node'', '''', nodeName node, nodeUID node, '''', r, s) \<and>
      (\<exists>c \<in> set (nodeConditions node).
        \<exists>a \<in> set (conditionAlerts t now (nodeBase node) c). alReason a = r \<and> alSeverity a = s))"
    unfolding EvaluateNode_concat set_concat set_map by blast
  also have "\<dots> \<longleftrightarrow> x \<in> ?rhs"
    unfolding conditionAlerts_iff node_rule_iff by blast
  finally show "x \<in> ?lhs \<longleftrightarrow> x \<in> ?rhs" .
qed

lemma EvaluatePod_reason_bar_free:
  assumes "a \<in> set (EvaluatePod isPrint (Some pod) t now)"
  shows "bar_free (alReason a)"
proof -
  have live: "podDeletionTimestamp pod = None"
    using assms EvaluatePod_gone by fastforce
  have "pod_rule t now pod (alReason a) (alSeverity a) (alContainer a)"
    unfolding pod_rule_alt EvaluatePod_mem [OF live, of isPrint, symmetric] using assms by blast
  then show ?thesis by (cases rule: pod_rule.cases) simp_all
qed

interpretation pod_source: alert_source "\<lambda>pod. EvaluatePod isPrint (Some pod) t" "''Pod''" podNamespace podName
  by unfold_locales (simp_all add: EvaluatePod_identity EvaluatePod_reason_bar_free, simp add: bar_free_def)

interpretation node_source: alert_source "\<lambda>node. EvaluateNode (Some node) t" "''Node''" "\<lambda>_. ''''" nodeName
proof unfold_locales
  fix a node now
  assume "a \<in> set (EvaluateNode (Some node) t now)"
  note ids = EvaluateNode_identity [OF this]
  show "alKind a = ''Node'' \<and> alNamespace a = '''' \<and> alName a = nodeName node"
    using ids by simp
  show "bar_free (alReason a)" using ids(6) by auto
qed (simp add: bar_free_def)

text \<open>
  C22.  The deduplication key separates alerts: for reasons, kinds, namespaces and names without
  separators, equal keys mean the same reason on the same object and container.
\<close>

theorem Key_inject:
  assumes "bar_free (alReason a)" "bar_free (alReason b)" "bar_free (alKind a)" "bar_free (alKind b)"
    and "plain (alNamespace a)" "plain (alNamespace b)" "plain (alName a)" "plain (alName b)"
  shows "Key a = Key b \<longleftrightarrow>
     alReason a = alReason b \<and> alKind a = alKind b \<and> alNamespace a = alNamespace b \<and>
     alName a = alName b \<and> alContainer a = alContainer b"
  using append_sep_inject [of "CHR 0x7C" "alReason a" "alReason b"] assms(1,2)
    objectPart_bar_cancel [OF assms(3,4,5,6,7,8)]
  unfolding Key_split bar_free_def by blast

theorem Key_inject_witness:
  "Key (emptyAlert\<lparr>alKind := ''Pod'', alName := ''a''\<rparr>) \<noteq> Key (emptyAlert\<lparr>alKind := ''Pod'', alName := ''b''\<rparr>)"
  using Key_inject [of "emptyAlert\<lparr>alKind := ''Pod'', alName := ''a''\<rparr>"
      "emptyAlert\<lparr>alKind := ''Pod'', alName := ''b''\<rparr>"]
  by (simp add: emptyAlert_def bar_free_def plain_def)

subsection \<open>One evaluation never repeats a key\<close>

lemma containerReasons_distinct: "distinct (map fst (containerReasons t cs))"
proof -
  have "distinct [ReasonCrashLoopBackOff, ReasonImagePullError, ReasonOOMKilled, ReasonHighRestartCount]"
    by (simp add: const_defs)
  moreover have "subseq (map fst (containerReasons t cs))
      [ReasonCrashLoopBackOff, ReasonImagePullError, ReasonOOMKilled, ReasonHighRestartCount]"
    unfolding containerReasons_def by (simp split: if_split)
  ultimately show ?thesis by (meson subseq_distinct)
qed

definition tag :: "Alert \<Rightarrow> Reason \<times> string" where
  "tag a = (alReason a, alContainer a)"

lemma containerAlerts_tag:
  "map tag (containerAlerts isPrint t base cs) = map (\<lambda>(r, s). (r, csName cs)) (containerReasons t cs)"
proof -
  have "map tag (containerAlerts isPrint t base cs)
        = map (\<lambda>(r, s). (r, csName cs)) (map (\<lambda>a. (alReason a, alSeverity a)) (containerAlerts isPrint t base cs))"
    by (auto simp: tag_def dest: containerAlerts_identity(5))
  then show ?thesis by (simp only: containerAlerts_tags)
qed

lemma containerAlerts_tag_distinct: "distinct (map tag (containerAlerts isPrint t base cs))"
proof -
  have "distinct (map fst (map tag (containerAlerts isPrint t base cs)))"
    using containerReasons_distinct [of t cs]
    by (simp add: containerAlerts_tag comp_def case_prod_unfold)
  then show ?thesis by (metis distinct_map)
qed

lemma concat_containerAlerts_tag_distinct:
  "distinct (map csName css) \<Longrightarrow>
   distinct (map tag (concat (map (containerAlerts isPrint t base) css)))"
proof (induction css)
  case (Cons cs css)
  have "tag a \<noteq> tag b"
    if "a \<in> set (containerAlerts isPrint t base cs)" "c \<in> set css"
      "b \<in> set (containerAlerts isPrint t base c)" for a b c
    using that Cons.prems by (auto simp: tag_def containerAlerts_identity(5))
  then have "tag ` set (containerAlerts isPrint t base cs) \<inter>
      tag ` (\<Union>c \<in> set css. set (containerAlerts isPrint t base c)) = {}"
    by blast
  with Cons show ?case by (simp add: containerAlerts_tag_distinct)
qed simp

lemma pending_not_container_reason: "(ReasonPodStuckPending, s) \<notin> set (containerReasons t cs)"
  by (simp add: containerReasons_mem const_defs)

lemma EvaluatePod_tag_distinct:
  assumes live: "podDeletionTimestamp pod = None"
    and names: "distinct (map csName (podContainerStatuses pod))"
  shows "distinct (map tag (EvaluatePod isPrint (Some pod) t now))"
proof -
  let ?as = "concat (map (containerAlerts isPrint t (podBase pod)) (podContainerStatuses pod))"
  have "tag (pendingAlert t now pod) \<noteq> tag a" if "a \<in> set ?as" for a
  proof
    assume eq: "tag (pendingAlert t now pod) = tag a"
    from that obtain cs where "a \<in> set (containerAlerts isPrint t (podBase pod) cs)" by auto
    then have "(alReason a, alSeverity a) \<in> set (containerReasons t cs)"
      using containerReasons_iff by blast
    with eq show False by (simp add: tag_def pending_not_container_reason)
  qed
  then have "tag (pendingAlert t now pod) \<notin> tag ` set ?as" by blast
  then show ?thesis
    using concat_containerAlerts_tag_distinct [OF names, of isPrint t "podBase pod"]
    by (auto simp: EvaluatePod_live [OF live] simp del: map_concat set_concat)
qed

text \<open>
  C21.  On a live Pod whose containers have different names no two alerts of one evaluation share
  a deduplication key, so no finding of the Pod rules is swallowed by another one.
\<close>

theorem EvaluatePod_keys_distinct:
  assumes "podDeletionTimestamp pod = None" "distinct (map csName (podContainerStatuses pod))"
  shows "distinct (map Key (EvaluatePod isPrint (Some pod) t now))"
proof -
  let ?as = "EvaluatePod isPrint (Some pod) t now"
  have d: "distinct (map tag ?as)"
    using assms by (rule EvaluatePod_tag_distinct)
  have "inj_on Key (set ?as)"
  proof (rule inj_onI)
    fix a b assume ab: "a \<in> set ?as" "b \<in> set ?as" "Key a = Key b"
    then have "tag a = tag b"
      using Key_same_object [of a b] by (simp add: EvaluatePod_reason_bar_free EvaluatePod_identity tag_def)
    with d ab show "a = b" by (auto simp: distinct_map dest: inj_onD)
  qed
  with d show ?thesis by (simp add: distinct_map)
qed

theorem EvaluatePod_keys_distinct_witness:
  "distinct (map Key (EvaluatePod (\<lambda>_. True) (Some demoPod) DefaultThresholds zeroTime))"
  by (rule EvaluatePod_keys_distinct) (simp_all add: demoPod_def)

definition pressedNode :: Node where
  "pressedNode = \<lparr>nodeName = ''n1'', nodeUID = ''u'', nodeConditions =
     [\<lparr>ncType = NodeMemoryPressure, ncStatus = ConditionTrue, ncLastTransitionTime = zeroTime, ncMessage = ''''\<rparr>,
      \<lparr>ncType = NodeDiskPressure, ncStatus = ConditionTrue, ncLastTransitionTime = zeroTime, ncMessage = ''''\<rparr>]\<rparr>"

text \<open>
  The node rules lack this separation: all pressure alerts of one node have the same key,
  although their messages differ.
\<close>

lemma NodePressure_same_key:
  assumes "a \<in> set (EvaluateNode (Some node) t now)" "b \<in> set (EvaluateNode (Some node) t' now')"
    and "alReason a = ReasonNodePressure" "alReason b = ReasonNodePressure"
  shows "Key a = Key b"
  using assms(3,4) EvaluateNode_identity [OF assms(1)] EvaluateNode_identity [OF assms(2)]
  by (simp add: Key_split)

lemma pressedNode_alerts:
  "\<exists>a b. EvaluateNode (Some pressedNode) DefaultThresholds zeroTime = [a, b] \<and> alMessage a \<noteq> alMessage b \<and>
     alReason a = ReasonNodePressure \<and> alReason b = ReasonNodePressure"
  by (simp add: EvaluateNode_concat conditionAlerts_def evalCondition_def pressedNode_def const_defs
      pressureMessage_def)

lemma timeSub_mono_wall:
  assumes "mono u = None" "wall t \<le> wall t'"
  shows "sint (timeSub t u) \<le> sint (timeSub t' u)"
  using assms(2) by (simp add: timeSub_wall [OF assms(1)])

text \<open>
  C32.  A Pod that is stuck pending stays reported: once the alert fires, it fires at every later
  reading of the clock for the same Pod object.
\<close>

theorem PodStuckPending_persists:
  assumes "mono (podCreationTimestamp pod) = None" "wall now \<le> wall later"
    and "a \<in> set (EvaluatePod isPrint (Some pod) t now)" "alReason a = ReasonPodStuckPending"
  shows "\<exists>b \<in> set (EvaluatePod isPrint (Some pod) t later). Key b = Key a"
proof -
  have live: "podDeletionTimestamp pod = None"
    using assms(3) EvaluatePod_gone by fastforce
  have "a = pendingAlert t now pod \<and> stuckPending t now pod"
  proof (rule ccontr)
    assume "\<not> (a = pendingAlert t now pod \<and> stuckPending t now pod)"
    then obtain cs where "a \<in> set (containerAlerts isPrint t (podBase pod) cs)"
      using assms(3) by (auto simp: EvaluatePod_live [OF live] split: if_splits)
    then have "(alReason a, alSeverity a) \<in> set (containerReasons t cs)"
      using containerReasons_iff by blast
    with assms(4) show False by (simp add: pending_not_container_reason)
  qed
  moreover from this have "stuckPending t later pod"
    using timeSub_mono_wall [OF assms(1,2)] by (auto simp: stuckPending_def)
  moreover have "Key (pendingAlert t later pod) = Key (pendingAlert t now pod)"
    by (simp add: Key_def)
  ultimately show ?thesis by (auto simp: EvaluatePod_live [OF live])
qed

definition pendingPod :: Pod where
  "pendingPod = demoPod\<lparr>podPhase := PodPending, podContainerStatuses := []\<rparr>"

theorem PodStuckPending_persists_witness:
  "\<exists>a \<in> set (EvaluatePod (\<lambda>_. True) (Some pendingPod) DefaultThresholds \<lparr>wall = 600000000000, mono = None\<rparr>).
   \<exists>b \<in> set (EvaluatePod (\<lambda>_. True) (Some pendingPod) DefaultThresholds \<lparr>wall = 700000000000, mono = None\<rparr>).
     Key b = Key a"
proof -
  let ?now = "\<lparr>wall = 600000000000, mono = None\<rparr>"
  let ?a = "pendingAlert DefaultThresholds ?now pendingPod"
  have "sint (timeSub ?now zeroTime) = 600000000000"
    by (simp add: timeSub_wall zeroTime_def)
  then have "stuckPending DefaultThresholds ?now pendingPod"
    by (simp add: stuckPending_def pendingPod_def demoPod_def DefaultThresholds_def Minute_def)
  then have a: "?a \<in> set (EvaluatePod (\<lambda>_. True) (Some pendingPod) DefaultThresholds ?now)"
    by (subst EvaluatePod_live) (simp_all add: pendingPod_def demoPod_def)
  have "\<exists>b \<in> set (EvaluatePod (\<lambda>_. True) (Some pendingPod) DefaultThresholds \<lparr>wall = 700000000000, mono = None\<rparr>).
     Key b = Key ?a"
    by (rule PodStuckPending_persists [OF _ _ a]) (simp_all add: pendingPod_def demoPod_def zeroTime_def)
  with a show ?thesis by blast
qed

end
