(* ===== verification/Effects.thy ===== *)
theory Effects
  imports K8s_Api
begin

text \<open>
  What the program asks of the libraries it writes to.  A Prometheus counter, gauge or
  histogram, the structured logger and the event recorder are other people's code: the model
  records each call with its arguments, in program order, and says nothing about what the
  library does with it.
\<close>

datatype level = LevelInfo | LevelWarn | LevelError

text \<open>Levels are ordered by their number in \<^verbatim>\<open>log/slog\<close>.\<close>

primrec levelInt :: "level \<Rightarrow> int" where
  "levelInt LevelInfo = 0"
| "levelInt LevelWarn = 4"
| "levelInt LevelError = 8"

lemma levelInt_inject: "levelInt l = levelInt l' \<longleftrightarrow> l = l'"
  by (cases l; cases l') simp_all

instantiation level :: linorder
begin

definition less_eq_level :: "level \<Rightarrow> level \<Rightarrow> bool" where
  "less_eq_level l l' \<longleftrightarrow> levelInt l \<le> levelInt l'"

definition less_level :: "level \<Rightarrow> level \<Rightarrow> bool" where
  "less_level l l' \<longleftrightarrow> levelInt l < levelInt l'"

instance
  by standard (auto simp: less_eq_level_def less_level_def levelInt_inject [symmetric])

end

lemma LevelInfo_least [simp]: "LevelInfo \<le> l"
  by (cases l) (simp_all add: less_eq_level_def)

datatype call =
    CounterInc string "string list"
  | GaugeSet string int
  | GaugeVecSet string "string list" int
  | HistogramObserve string "string list" duration
  | LogAttrs level string "(string \<times> string) list"
  | RecorderEvent ObjectReference string string string
  | Printed string

fun is_counter :: "string \<Rightarrow> call \<Rightarrow> bool" where
  "is_counter n (CounterInc m ls) \<longleftrightarrow> m = n"
| "is_counter n _ \<longleftrightarrow> False"

fun is_log :: "call \<Rightarrow> bool" where
  "is_log (LogAttrs l m as) \<longleftrightarrow> True"
| "is_log _ \<longleftrightarrow> False"

fun is_event :: "call \<Rightarrow> bool" where
  "is_event (RecorderEvent r t n m) \<longleftrightarrow> True"
| "is_event _ \<longleftrightarrow> False"

definition count_calls :: "(call \<Rightarrow> bool) \<Rightarrow> call list \<Rightarrow> nat" where
  "count_calls P cs = length (filter P cs)"

lemma count_calls_simps [simp]:
  "count_calls P [] = 0"
  "count_calls P (c # cs) = (if P c then Suc (count_calls P cs) else count_calls P cs)"
  "count_calls P (cs @ ds) = count_calls P cs + count_calls P ds"
  by (simp_all add: count_calls_def)

end
