(* ===== verification/Prom_Registry.thy ===== *)
theory Prom_Registry
  imports Sentinel_Prelude
begin

text \<open>
  Prometheus collectors as the program describes them, and the registry it registers them
  with.  The registry is the library's: it is an argument, with the documented behaviour of
  \<^verbatim>\<open>Register\<close> as the laws \<open>reg_laws\<close>.
\<close>

section \<open>Collectors\<close>

datatype collectorKind = GaugeKind | CounterKind | HistogramKind | GaugeVecKind | CounterVecKind | HistogramVecKind

text \<open>
  A collector's options: constant labels with their values, the names of variable labels, and
  bucket bounds in units of 0.0001.
\<close>

record collector =
  coKind :: collectorKind
  coSubsystem :: string
  coName :: string
  coHelp :: string
  coLabels :: "(string \<times> string) list"
  coVariable :: "string list"
  coBuckets :: "nat list"

datatype registerError = AlreadyRegisteredError collector | RegisterError string

type_synonym 'r registerer = "collector \<Rightarrow> 'r \<Rightarrow> registerError option \<times> 'r"

text \<open>\<^verbatim>\<open>prometheus.BuildFQName\<close> without a namespace.\<close>

definition fqName :: "collector \<Rightarrow> string" where
  "fqName c = (if coSubsystem c = '''' then coName c else coSubsystem c @ ''_'' @ coName c)"

type_synonym identity = "string \<times> (string \<times> string) list"

definition identity :: "collector \<Rightarrow> identity" where
  "identity c = (fqName c, coLabels c)"

definition labelNames :: "collector \<Rightarrow> string set" where
  "labelNames c = set (map fst (coLabels c)) \<union> set (coVariable c)"

section \<open>The registry's contract\<close>

text \<open>
  \<open>stored\<close> reads the registry.  Collectors of one name have to agree on the help text and the
  label names; a consistent collector with a new identity is stored, and one whose identity is
  taken is refused with the stored collector, without a change to the registry.
\<close>

definition consistent :: "('r \<Rightarrow> identity \<Rightarrow> collector option) \<Rightarrow> 'r \<Rightarrow> collector \<Rightarrow> bool" where
  "consistent stored r c \<longleftrightarrow>
     (\<forall>ls c'. stored r (fqName c, ls) = Some c' \<longrightarrow> coHelp c' = coHelp c \<and> labelNames c' = labelNames c)"

definition reg_laws :: "'r registerer \<Rightarrow> ('r \<Rightarrow> identity \<Rightarrow> collector option) \<Rightarrow> bool" where
  "reg_laws reg stored \<longleftrightarrow>
     (\<forall>c r. consistent stored r c \<and> stored r (identity c) = None \<longrightarrow>
        fst (reg c r) = None \<and> stored (snd (reg c r)) = (stored r)(identity c \<mapsto> c)) \<and>
     (\<forall>c c' r. consistent stored r c \<and> stored r (identity c) = Some c' \<longrightarrow>
        reg c r = (Some (AlreadyRegisteredError c'), r))"

text \<open>Names nothing is registered under.\<close>

definition unused :: "('r \<Rightarrow> identity \<Rightarrow> collector option) \<Rightarrow> 'r \<Rightarrow> string \<Rightarrow> bool" where
  "unused stored r n \<longleftrightarrow> (\<forall>ls. stored r (n, ls) = None)"

lemma unused_consistent: "unused stored r (fqName c) \<Longrightarrow> consistent stored r c"
  by (simp add: unused_def consistent_def)

lemma reg_unused:
  assumes "reg_laws reg stored" "unused stored r (fqName c)"
  obtains r' where "reg c r = (None, r')" "stored r' = (stored r)(identity c \<mapsto> c)"
proof -
  have "stored r (identity c) = None" using assms(2) by (simp add: unused_def identity_def)
  then have "fst (reg c r) = None" "stored (snd (reg c r)) = (stored r)(identity c \<mapsto> c)"
    using assms(1) unused_consistent [OF assms(2)] by (simp_all add: reg_laws_def)
  then show ?thesis using that [of "snd (reg c r)"] by (metis prod.collapse)
qed

text \<open>A collector that is the only one of its name.\<close>

definition only :: "('r \<Rightarrow> identity \<Rightarrow> collector option) \<Rightarrow> 'r \<Rightarrow> collector \<Rightarrow> bool" where
  "only stored r c \<longleftrightarrow> stored r (identity c) = Some c \<and> (\<forall>ls c'. stored r (fqName c, ls) = Some c' \<longrightarrow> c' = c)"

lemma only_after:
  assumes "unused stored r (fqName c)" "stored r' = (stored r)(identity c \<mapsto> c)"
  shows "only stored r' c"
  using assms by (auto simp: only_def unused_def identity_def)

lemma only_other:
  assumes "only stored r c" "stored r' = (stored r)(identity d \<mapsto> d)" "fqName d \<noteq> fqName c"
  shows "only stored r' c"
  using assms by (auto simp: only_def identity_def)

lemma unused_other:
  assumes "unused stored r n" "stored r' = (stored r)(identity d \<mapsto> d)" "fqName d \<noteq> n"
  shows "unused stored r' n"
  using assms by (auto simp: unused_def identity_def)

lemma reg_only:
  assumes "reg_laws reg stored" "only stored r c"
  shows "reg c r = (Some (AlreadyRegisteredError c), r)"
proof -
  have "consistent stored r c" using assms(2) by (auto simp: only_def consistent_def)
  then show ?thesis using assms by (simp add: reg_laws_def only_def)
qed

section \<open>Registering several collectors\<close>

text \<open>\<^verbatim>\<open>MustRegister\<close>: none is the panic it answers an error with.\<close>

fun MustRegister :: "'r registerer \<Rightarrow> collector list \<Rightarrow> 'r \<Rightarrow> 'r option" where
  "MustRegister reg [] r = Some r"
| "MustRegister reg (c # cs) r =
     (case reg c r of (None, r) \<Rightarrow> MustRegister reg cs r | (Some err, r) \<Rightarrow> None)"

lemma MustRegister_new:
  assumes "reg_laws reg stored" "distinct (map fqName cs)" "\<forall>c \<in> set cs. unused stored r (fqName c)"
  shows "\<exists>r'. MustRegister reg cs r = Some r' \<and> (\<forall>c \<in> set cs. only stored r' c) \<and>
     (\<forall>c. only stored r c \<and> fqName c \<notin> fqName ` set cs \<longrightarrow> only stored r' c) \<and>
     (\<forall>n. unused stored r n \<and> n \<notin> fqName ` set cs \<longrightarrow> unused stored r' n)"
  using assms(2,3)
proof (induction cs arbitrary: r)
  case (Cons c cs)
  obtain r1 where r1: "reg c r = (None, r1)" "stored r1 = (stored r)(identity c \<mapsto> c)"
    using reg_unused [OF assms(1), of r c] Cons.prems(2) by auto
  have c: "only stored r1 c" using only_after [of stored r c r1] r1(2) Cons.prems(2) by simp
  have keep: "unused stored r1 n" if "unused stored r n" "n \<noteq> fqName c" for n
    using unused_other [OF that(1) r1(2)] that(2) by blast
  then have "\<forall>d \<in> set cs. unused stored r1 (fqName d)" using Cons.prems by (auto simp: image_iff)
  then obtain r2 where r2: "MustRegister reg cs r1 = Some r2" "\<forall>c \<in> set cs. only stored r2 c"
    "\<forall>c. only stored r1 c \<and> fqName c \<notin> fqName ` set cs \<longrightarrow> only stored r2 c"
    "\<forall>n. unused stored r1 n \<and> n \<notin> fqName ` set cs \<longrightarrow> unused stored r2 n"
    using Cons.IH [of r1] Cons.prems(1) by auto
  have "only stored r2 d" if "only stored r d" "fqName d \<notin> fqName ` set (c # cs)" for d
    using r2(3) only_other [OF that(1) r1(2)] that(2) by auto
  then show ?case using r1(1) r2 c keep Cons.prems(1) by (intro exI [of _ r2]) auto
qed simp

end
