(* ===== verification/Metrics.thy ===== *)
theory Metrics
  imports Effects Prom_Registry
begin

text \<open>
  \<^verbatim>\<open>src/internal/metrics/metrics.go\<close>: the metric set, the counters the alert pipeline uses, the
  readiness flag and the HTTP handler.  The handler's \<^verbatim>\<open>/metrics\<close> page is produced by the
  Prometheus library, so its response is an argument.
\<close>

definition sentinel_pods_watched :: string where
  [const_defs]: "sentinel_pods_watched = ''sentinel_pods_watched''"
definition sentinel_nodes_watched :: string where
  [const_defs]: "sentinel_nodes_watched = ''sentinel_nodes_watched''"
definition sentinel_unhealthy_pods :: string where
  [const_defs]: "sentinel_unhealthy_pods = ''sentinel_unhealthy_pods''"
definition sentinel_alerts_fired_total :: string where
  [const_defs]: "sentinel_alerts_fired_total = ''sentinel_alerts_fired_total''"
definition sentinel_alerts_suppressed_total :: string where
  [const_defs]: "sentinel_alerts_suppressed_total = ''sentinel_alerts_suppressed_total''"
definition sentinel_kube_events_emitted_total :: string where
  [const_defs]: "sentinel_kube_events_emitted_total = ''sentinel_kube_events_emitted_total''"
definition sentinel_reconcile_total :: string where
  [const_defs]: "sentinel_reconcile_total = ''sentinel_reconcile_total''"
definition sentinel_reconcile_errors_total :: string where
  [const_defs]: "sentinel_reconcile_errors_total = ''sentinel_reconcile_errors_total''"
definition sentinel_reconcile_duration_seconds :: string where
  [const_defs]: "sentinel_reconcile_duration_seconds = ''sentinel_reconcile_duration_seconds''"
definition sentinel_informer_reconnects_total :: string where
  [const_defs]: "sentinel_informer_reconnects_total = ''sentinel_informer_reconnects_total''"
definition sentinel_build_info :: string where
  [const_defs]: "sentinel_build_info = ''sentinel_build_info''"

text \<open>The collectors \<^verbatim>\<open>New\<close> builds, in the order it registers them.\<close>

definition metricOpts :: "collectorKind \<Rightarrow> string \<Rightarrow> string \<Rightarrow> string list \<Rightarrow> collector" where
  "metricOpts kind name help labels =
     \<lparr>coKind = kind, coSubsystem = '''', coName = name, coHelp = help, coLabels = [],
      coVariable = labels, coBuckets = []\<rparr>"

definition metricSet :: "collector list" where
  "metricSet =
     [metricOpts GaugeKind sentinel_pods_watched (''Number of Pods currently in Sentinel'' @ [CHR 0x27] @ ''s informer cache.'') [],
      metricOpts GaugeKind sentinel_nodes_watched (''Number of Nodes currently in Sentinel'' @ [CHR 0x27] @ ''s informer cache.'') [],
      metricOpts GaugeKind sentinel_unhealthy_pods
        ''Number of distinct Pods with at least one active alert at last reconcile.'' [],
      metricOpts CounterVecKind sentinel_alerts_fired_total
        ''Alerts delivered to the sink, by reason and severity.'' [''reason'', ''severity''],
      metricOpts CounterVecKind sentinel_alerts_suppressed_total
        ''Alerts dropped by the deduper because an identical alert fired within the resend interval.'' [''reason''],
      metricOpts CounterVecKind sentinel_kube_events_emitted_total
        ''Kubernetes Events written by the EventRecorder sink, by reason.'' [''reason''],
      metricOpts CounterVecKind sentinel_reconcile_total ''Work-queue items processed, by object kind.'' [''kind''],
      metricOpts CounterVecKind sentinel_reconcile_errors_total
        ''Work-queue items that returned an error and were requeued, by object kind.'' [''kind''],
      (metricOpts HistogramVecKind sentinel_reconcile_duration_seconds
        ''Wall time to process one work-queue item.'' [''kind''])\<lparr>coBuckets := [1, 5, 10, 50, 100, 500, 1000, 5000]\<rparr>,
      metricOpts CounterKind sentinel_informer_reconnects_total
        ''Times a shared informer watch had to be re-established (watch errors).'' [],
      metricOpts GaugeVecKind sentinel_build_info ''Build metadata; value is always 1.''
        [''version'', ''commit'', ''goversion'']]"

text \<open>The registered metrics, each with the names of its labels.\<close>

definition registeredMetrics :: "(string \<times> string list) list" where
  "registeredMetrics = map (\<lambda>c. (coName c, coVariable c)) metricSet"

definition goVersion :: "string option \<Rightarrow> string" where
  "goVersion buildInfo = (case buildInfo of Some v \<Rightarrow> v | None \<Rightarrow> ''unknown'')"

record Metrics =
  ready :: bool

text \<open>
  \<^verbatim>\<open>New\<close>: the new metric set with its readiness flag down, the call on the build-info gauge and the
  registry, or none when \<^verbatim>\<open>MustRegister\<close> panics.  The collectors for the Go runtime and the
  process are the library's.  The registry is also the one the work-queue provider gets.
\<close>

definition metricsNew ::
  "'r registerer \<Rightarrow> collector \<Rightarrow> collector \<Rightarrow> string \<Rightarrow> string \<Rightarrow> string option \<Rightarrow> 'r \<Rightarrow> (Metrics \<times> call list \<times> 'r) option"
where
  "metricsNew reg goCollector processCollector version commit buildInfo r =
     (let calls = [GaugeVecSet sentinel_build_info [version, commit, goVersion buildInfo] 1] in
      case MustRegister reg (metricSet @ [goCollector, processCollector]) r of
        None \<Rightarrow> None
      | Some r \<Rightarrow> Some (\<lparr>ready = False\<rparr>, calls, r))"

text \<open>
  What \<^verbatim>\<open>New\<close> takes from the Prometheus library: a new registry and its \<^verbatim>\<open>Register\<close>, and the
  collectors for the Go runtime and the process.
\<close>

record 'r prometheus =
  prNewRegistry :: 'r
  prRegister :: "'r registerer"
  prGoCollector :: collector
  prProcessCollector :: collector

definition newMetrics :: "'r prometheus \<Rightarrow> string \<Rightarrow> string \<Rightarrow> string option \<Rightarrow> (Metrics \<times> call list \<times> 'r) option" where
  "newMetrics pr version commit bi =
     metricsNew (prRegister pr) (prGoCollector pr) (prProcessCollector pr) version commit bi (prNewRegistry pr)"

definition ObserveReconcile :: "string \<Rightarrow> duration \<Rightarrow> string option \<Rightarrow> call list" where
  "ObserveReconcile kind d err =
     [CounterInc sentinel_reconcile_total [kind],
      HistogramObserve sentinel_reconcile_duration_seconds [kind] d] @
     (if err \<noteq> None then [CounterInc sentinel_reconcile_errors_total [kind]] else [])"

definition AlertFired :: "string \<Rightarrow> string \<Rightarrow> call list" where
  "AlertFired reason severity = [CounterInc sentinel_alerts_fired_total [reason, severity]]"

definition AlertSuppressed :: "string \<Rightarrow> call list" where
  "AlertSuppressed reason = [CounterInc sentinel_alerts_suppressed_total [reason]]"

definition KubeEventEmitted :: "string \<Rightarrow> call list" where
  "KubeEventEmitted reason = [CounterInc sentinel_kube_events_emitted_total [reason]]"

definition SetReady :: "Metrics \<Rightarrow> bool \<Rightarrow> Metrics" where
  "SetReady m v = m\<lparr>ready := v\<rparr>"

record response =
  rStatus :: int
  rBody :: string

text \<open>The routes of the handler; \<open>mux\<close> is what the multiplexer answers for any other path.\<close>

definition Handler :: "response \<Rightarrow> (string \<Rightarrow> response) \<Rightarrow> Metrics \<Rightarrow> string \<Rightarrow> response" where
  "Handler promPage mux m path =
     (if path = ''/metrics'' then promPage
      else if path = ''/healthz'' then \<lparr>rStatus = 200, rBody = ''ok''\<rparr>
      else if path = ''/readyz'' then
        (if \<not> ready m then \<lparr>rStatus = 503, rBody = ''informer caches not synced'' @ [CHR 0x0A]\<rparr>
         else \<lparr>rStatus = 200, rBody = ''ready''\<rparr>)
      else mux path)"

text \<open>
  \<^verbatim>\<open>Serve\<close> returns when the context is done or the listener fails, whichever the \<^verbatim>\<open>select\<close>
  receives; the shutdown result and the listener's error are arguments.
\<close>

datatype listen_error = ErrServerClosed | ListenFailed string

datatype serve_event = CtxDone "string option" | ErrCh listen_error

definition Serve :: "serve_event \<Rightarrow> string option" where
  "Serve ev =
     (case ev of
        CtxDone shutdownErr \<Rightarrow> shutdownErr
      | ErrCh ErrServerClosed \<Rightarrow> None
      | ErrCh (ListenFailed err) \<Rightarrow> Some err)"

section \<open>Properties\<close>

text \<open>The calls that fit the registered metric set: a known metric with the right number of labels.\<close>

definition labelCount :: "string \<Rightarrow> nat option" where
  "labelCount m = map_option length (map_of registeredMetrics m)"

fun fits :: "call \<Rightarrow> bool" where
  "fits (CounterInc m ls) \<longleftrightarrow> labelCount m = Some (length ls)"
| "fits (HistogramObserve m ls d) \<longleftrightarrow> labelCount m = Some (length ls)"
| "fits (GaugeSet m v) \<longleftrightarrow> labelCount m = Some 0"
| "fits (GaugeVecSet m ls v) \<longleftrightarrow> labelCount m = Some (length ls)"
| "fits _ \<longleftrightarrow> True"

lemma labelCount_simps [simp]:
  "labelCount sentinel_alerts_fired_total = Some 2" "labelCount sentinel_alerts_suppressed_total = Some 1"
  "labelCount sentinel_kube_events_emitted_total = Some 1" "labelCount sentinel_reconcile_total = Some 1"
  "labelCount sentinel_reconcile_errors_total = Some 1"
  "labelCount sentinel_reconcile_duration_seconds = Some 1"
  "labelCount sentinel_pods_watched = Some 0" "labelCount sentinel_nodes_watched = Some 0"
  "labelCount sentinel_unhealthy_pods = Some 0" "labelCount sentinel_informer_reconnects_total = Some 0"
  "labelCount sentinel_build_info = Some 3"
  by (simp_all add: labelCount_def registeredMetrics_def metricSet_def metricOpts_def const_defs)

lemma fits_counters [simp]:
  "list_all fits (AlertFired r s)" "list_all fits (AlertSuppressed r)" "list_all fits (KubeEventEmitted r)"
  "list_all fits (ObserveReconcile kind d err)"
  by (simp_all add: AlertFired_def AlertSuppressed_def KubeEventEmitted_def ObserveReconcile_def)

lemma registered_distinct: "distinct (map fst registeredMetrics)"
  by (simp add: registeredMetrics_def metricSet_def metricOpts_def const_defs)

end
