(* ===== verification/Rate_Limiter.thy ===== *)
theory Rate_Limiter
  imports Sentinel_Prelude Go_Time
begin

text \<open>
  The contract of the deduper, apart from its representation: a store of the last time each
  key passed, an operation that lets an item pass unless its key passed less than a fixed gap
  ago, and an operation that drops one key's record.  The client facts below hold for every
  provider of the contract.
\<close>

datatype ('a, 'k) rl_op = Offer time 'a | Drop 'k

text \<open>The times at which items with key \<open>k\<close> pass during a sequence of operations.\<close>

fun pass_times ::
  "('m \<Rightarrow> time \<Rightarrow> 'a \<Rightarrow> 'm \<times> bool) \<Rightarrow> ('m \<Rightarrow> 'k \<Rightarrow> 'm) \<Rightarrow> ('a \<Rightarrow> 'k) \<Rightarrow> 'k \<Rightarrow> 'm \<Rightarrow> ('a, 'k) rl_op list \<Rightarrow> time list"
where
  "pass_times offer forget key k m [] = []"
| "pass_times offer forget key k m (Offer now a # ops) =
     (case offer m now a of (m', p) \<Rightarrow>
        (if p \<and> key a = k then [now] else []) @ pass_times offer forget key k m' ops)"
| "pass_times offer forget key k m (Drop k' # ops) = pass_times offer forget key k (forget m k') ops"

fun drops :: "'k \<Rightarrow> ('a, 'k) rl_op \<Rightarrow> bool" where
  "drops k (Offer now a) \<longleftrightarrow> False"
| "drops k (Drop k') \<longleftrightarrow> k' = k"

definition spaced :: "duration \<Rightarrow> time list \<Rightarrow> bool" where
  "spaced g ts \<longleftrightarrow> successively (\<lambda>t u. sint g \<le> sint (timeSub u t)) ts"

lemma spaced_simps [simp]:
  "spaced g []" "spaced g [t]"
  "spaced g (t # u # ts) \<longleftrightarrow> sint g \<le> sint (timeSub u t) \<and> spaced g (u # ts)"
  by (simp_all add: spaced_def)

lemma spaced_tl: "spaced g (t # ts) \<Longrightarrow> spaced g ts"
  by (cases ts) simp_all

locale rate_limiter = deletable seen forget
  for seen :: "'m \<Rightarrow> 'k \<Rightarrow> time option" and forget :: "'m \<Rightarrow> 'k \<Rightarrow> 'm" +
  fixes offer :: "'m \<Rightarrow> time \<Rightarrow> 'a \<Rightarrow> 'm \<times> bool"
    and key :: "'a \<Rightarrow> 'k"
    and gap :: "'m \<Rightarrow> duration"
  assumes passes: "snd (offer m now a) \<longleftrightarrow>
      (case seen m (key a) of None \<Rightarrow> True | Some t \<Rightarrow> sint (gap m) \<le> sint (timeSub now t))"
    and last_offer: "seen (fst (offer m now a)) =
      (if snd (offer m now a) then (seen m)(key a \<mapsto> now) else seen m)"
    and gap_offer: "gap (fst (offer m now a)) = gap m"
    and gap_drop: "gap (forget m k) = gap m"
begin

lemma pass_times_spaced_aux:
  assumes "\<forall>op \<in> set ops. \<not> drops k op"
  shows "(case seen m k of None \<Rightarrow> spaced (gap m) (pass_times offer forget key k m ops)
          | Some t \<Rightarrow> spaced (gap m) (t # pass_times offer forget key k m ops))"
  using assms
proof (induction ops arbitrary: m)
  case Nil
  then show ?case by (simp split: option.splits)
next
  case (Cons op ops)
  show ?case
  proof (cases op)
    case (Offer now a)
    let ?m = "fst (offer m now a)"
    have ih: "(case seen ?m k of None \<Rightarrow> spaced (gap m) (pass_times offer forget key k ?m ops)
          | Some t \<Rightarrow> spaced (gap m) (t # pass_times offer forget key k ?m ops))"
      using Cons.IH [of ?m] Cons.prems unfolding gap_offer by simp
    show ?thesis
      using ih passes [of m now a] Offer
      by (auto simp: last_offer case_prod_beta split: option.splits if_splits)
  next
    case (Drop k')
    with Cons.prems have "k' \<noteq> k" by simp
    then show ?thesis
      using Cons.IH [of "forget m k'"] Cons.prems unfolding gap_drop Drop
      by (auto simp: get_del split: option.splits)
  qed
qed

text \<open>While a key's record is not dropped, its items pass at least the gap apart.\<close>

lemma pass_times_spaced:
  assumes "\<forall>op \<in> set ops. \<not> drops k op"
  shows "spaced (gap m) (pass_times offer forget key k m ops)"
  using pass_times_spaced_aux [OF assms, of m] by (auto split: option.splits dest: spaced_tl)

text \<open>An item whose key was just dropped passes at once.\<close>

lemma pass_after_drop: "snd (offer (forget m (key a)) now a)"
  by (simp add: passes get_del)

lemma pass_after_gap: "seen m (key a) = Some t \<Longrightarrow> sint (gap m) \<le> sint (timeSub now t) \<Longrightarrow> snd (offer m now a)"
  by (simp add: passes)

text \<open>Items of other keys neither help nor hinder.\<close>

lemma other_key: "key a \<noteq> k \<Longrightarrow> seen (fst (offer m now a)) k = seen m k"
  by (simp add: last_offer)

end

end
