(* ===== verification/Alert_Pipeline.thy ===== *)
theory Alert_Pipeline
  imports Reliability Metrics Rate_Limiter
begin

text \<open>
  \<^verbatim>\<open>src/internal/alert/alert.go\<close>: sinks and the deduper.  A sink is the function its \<^verbatim>\<open>Fire\<close> method
  computes: the library calls made for one alert, in order (this is also what \<^verbatim>\<open>SinkFunc\<close>
  states).  The context argument is never read.  The deduper's clock is read once per \<^verbatim>\<open>Fire\<close>,
  so that reading is an argument of \<open>DeduperFire\<close>.  \<^verbatim>\<open>Fire\<close> decides and records, and \<^verbatim>\<open>Forget\<close> removes,
  inside one critical section each.
\<close>

section \<open>Model\<close>

type_synonym Sink = "Alert \<Rightarrow> call list"

definition SinkFuncFire :: "(Alert \<Rightarrow> call list) \<Rightarrow> Sink" where
  "SinkFuncFire f a = f a"

fun MultiSinkFire :: "Sink list \<Rightarrow> Sink" where
  "MultiSinkFire [] a = []"
| "MultiSinkFire (s # m) a = s a @ MultiSinkFire m a"

record Counters =
  cAlertFired :: "string \<Rightarrow> string \<Rightarrow> call list"
  cAlertSuppressed :: "string \<Rightarrow> call list"
  cKubeEventEmitted :: "string \<Rightarrow> call list"

definition metricsCounters :: Counters where
  "metricsCounters = \<lparr>cAlertFired = AlertFired, cAlertSuppressed = AlertSuppressed,
     cKubeEventEmitted = KubeEventEmitted\<rparr>"

record Deduper =
  dNext :: Sink
  dResend :: duration
  dCounters :: "Counters option"
  dLastSeen :: "(string, time) gomap"

definition NewDeduper :: "Sink \<Rightarrow> duration \<Rightarrow> Counters option \<Rightarrow> Deduper" where
  "NewDeduper next resend counters =
     \<lparr>dNext = next, dResend = resend, dCounters = counters, dLastSeen = []\<rparr>"

definition DeduperFire :: "Deduper \<Rightarrow> time \<Rightarrow> Alert \<Rightarrow> Deduper \<times> call list" where
  "DeduperFire d now a =
     (let key = Key a;
          suppress = (case mget (dLastSeen d) key of
                        Some prev \<Rightarrow> sint (timeSub now prev) < sint (dResend d)
                      | None \<Rightarrow> False)
      in if suppress then
           (d, case dCounters d of None \<Rightarrow> [] | Some c \<Rightarrow> cAlertSuppressed c (alReason a))
         else
           (d\<lparr>dLastSeen := mput (dLastSeen d) key now\<rparr>,
            (case dCounters d of None \<Rightarrow> [] | Some c \<Rightarrow> cAlertFired c (alReason a) (alSeverity a))
            @ dNext d a))"

definition DeduperForget :: "Deduper \<Rightarrow> string \<Rightarrow> Deduper" where
  "DeduperForget d key = d\<lparr>dLastSeen := mdel (dLastSeen d) key\<rparr>"

definition ActiveKeys :: "Deduper \<Rightarrow> (string, unit) gomap" where
  "ActiveKeys d = fold (\<lambda>k out. mput out k ()) (mkeys (dLastSeen d)) []"

definition SlogSinkFire :: Sink where
  "SlogSinkFire a =
     (let lvl = (if alSeverity a = SeverityCritical then LevelError else LevelWarn) in
      [LogAttrs lvl ''reliability alert''
        [(''reason'', alReason a), (''severity'', alSeverity a), (''kind'', alKind a),
         (''namespace'', alNamespace a), (''name'', alName a), (''container'', alContainer a),
         (''message'', alMessage a)]])"

definition EventSinkFire :: "Counters option \<Rightarrow> Sink" where
  "EventSinkFire counters a =
     (let ref = ObjectReferenceOf a in
      [RecorderEvent ref EventTypeWarning (''Sentinel'' @ alReason a) (alMessage a)] @
      (case counters of None \<Rightarrow> [] | Some c \<Rightarrow> cKubeEventEmitted c (alReason a)))"

section \<open>The deduper is a rate limiter\<close>

definition delivers :: "Deduper \<Rightarrow> time \<Rightarrow> Alert \<Rightarrow> bool" where
  "delivers d now a \<longleftrightarrow>
     (case mget (dLastSeen d) (Key a) of None \<Rightarrow> True
      | Some prev \<Rightarrow> sint (dResend d) \<le> sint (timeSub now prev))"

lemma DeduperFire_delivers:
  "delivers d now a \<Longrightarrow> DeduperFire d now a =
     (d\<lparr>dLastSeen := mput (dLastSeen d) (Key a) now\<rparr>,
      (case dCounters d of None \<Rightarrow> [] | Some c \<Rightarrow> cAlertFired c (alReason a) (alSeverity a)) @ dNext d a)"
  by (auto simp: DeduperFire_def delivers_def split: option.splits)

lemma DeduperFire_suppresses:
  "\<not> delivers d now a \<Longrightarrow> DeduperFire d now a =
     (d, case dCounters d of None \<Rightarrow> [] | Some c \<Rightarrow> cAlertSuppressed c (alReason a))"
  by (auto simp: DeduperFire_def delivers_def split: option.splits)

lemma DeduperFire_frame [simp, frame]:
  "dNext (fst (DeduperFire d now a)) = dNext d" "dResend (fst (DeduperFire d now a)) = dResend d"
  "dCounters (fst (DeduperFire d now a)) = dCounters d"
  by (simp_all add: DeduperFire_def Let_def)

lemma DeduperForget_frame [simp, frame]:
  "dNext (DeduperForget d k) = dNext d" "dResend (DeduperForget d k) = dResend d"
  "dCounters (DeduperForget d k) = dCounters d"
  "dLastSeen (DeduperForget d k) = mdel (dLastSeen d) k"
  by (simp_all add: DeduperForget_def)

text \<open>The operation of the contract: the new state and whether the alert was delivered.\<close>

definition offerAlert :: "Deduper \<Rightarrow> time \<Rightarrow> Alert \<Rightarrow> Deduper \<times> bool" where
  "offerAlert d now a = (fst (DeduperFire d now a), delivers d now a)"

interpretation dd: rate_limiter "\<lambda>d. mget (dLastSeen d)" DeduperForget offerAlert Key dResend
proof unfold_locales
  fix d :: Deduper and k now a
  show "mget (dLastSeen (DeduperForget d k)) = (mget (dLastSeen d))(k := None)" by simp
  show "snd (offerAlert d now a) =
      (case mget (dLastSeen d) (Key a) of None \<Rightarrow> True | Some t \<Rightarrow> sint (dResend d) \<le> sint (timeSub now t))"
    by (simp add: offerAlert_def delivers_def)
  show "mget (dLastSeen (fst (offerAlert d now a))) =
      (if snd (offerAlert d now a) then (mget (dLastSeen d))(Key a \<mapsto> now) else mget (dLastSeen d))"
    by (simp add: offerAlert_def DeduperFire_delivers DeduperFire_suppresses)
qed (simp_all add: offerAlert_def)

section \<open>Runs of the pipeline\<close>

datatype pipe_op = FireOp time Alert | ForgetOp string

fun pipeRun :: "Deduper \<Rightarrow> pipe_op list \<Rightarrow> Deduper \<times> call list" where
  "pipeRun d [] = (d, [])"
| "pipeRun d (FireOp now a # ops) =
     (case DeduperFire d now a of (d', out) \<Rightarrow>
        case pipeRun d' ops of (d'', out') \<Rightarrow> (d'', out @ out'))"
| "pipeRun d (ForgetOp k # ops) = pipeRun (DeduperForget d k) ops"

fun deliveryTimes :: "string \<Rightarrow> Deduper \<Rightarrow> pipe_op list \<Rightarrow> time list" where
  "deliveryTimes k d [] = []"
| "deliveryTimes k d (FireOp now a # ops) =
     (if delivers d now a \<and> Key a = k then [now] else []) @ deliveryTimes k (fst (DeduperFire d now a)) ops"
| "deliveryTimes k d (ForgetOp k' # ops) = deliveryTimes k (DeduperForget d k') ops"

fun rl_of :: "pipe_op \<Rightarrow> (Alert, string) rl_op" where
  "rl_of (FireOp now a) = Offer now a"
| "rl_of (ForgetOp k) = Drop k"

lemma deliveryTimes_pass_times:
  "deliveryTimes k d ops = pass_times offerAlert DeduperForget Key k d (map rl_of ops)"
  by (induction k d ops rule: deliveryTimes.induct) (simp_all add: offerAlert_def)

lemma deliveryTimes_spaced:
  assumes "ForgetOp k \<notin> set ops"
  shows "spaced (dResend d) (deliveryTimes k d ops)"
proof -
  have "\<forall>op \<in> set (map rl_of ops). \<not> drops k op"
  proof
    fix op assume "op \<in> set (map rl_of ops)"
    then obtain p where "p \<in> set ops" "op = rl_of p" by auto
    with assms show "\<not> drops k op" by (cases p) auto
  qed
  then show ?thesis unfolding deliveryTimes_pass_times by (rule dd.pass_times_spaced)
qed

section \<open>What comes out\<close>

text \<open>
  A predicate \<open>P\<close> on calls that recognises the reports of one alert key in the output: the sink
  makes such a call for the alerts with that key and for no other, and the counters make none.
\<close>

definition reveals :: "(call \<Rightarrow> bool) \<Rightarrow> string \<Rightarrow> Sink \<Rightarrow> Counters option \<Rightarrow> bool" where
  "reveals P k sink counters \<longleftrightarrow> (\<forall>a. list_ex P (sink a) \<longleftrightarrow> Key a = k) \<and>
     (\<forall>c r s. counters = Some c \<longrightarrow> \<not> list_ex P (cAlertFired c r s) \<and> \<not> list_ex P (cAlertSuppressed c r))"

text \<open>The times of the firings whose output reports the key.\<close>

fun reportTimes :: "(call \<Rightarrow> bool) \<Rightarrow> Deduper \<Rightarrow> pipe_op list \<Rightarrow> time list" where
  "reportTimes P d [] = []"
| "reportTimes P d (FireOp now a # ops) =
     (case DeduperFire d now a of (d', calls) \<Rightarrow>
        (if list_ex P calls then [now] else []) @ reportTimes P d' ops)"
| "reportTimes P d (ForgetOp k # ops) = reportTimes P (DeduperForget d k) ops"

lemma fire_reveals:
  assumes "reveals P k (dNext d) (dCounters d)"
  shows "list_ex P (snd (DeduperFire d now a)) \<longleftrightarrow> delivers d now a \<and> Key a = k"
  using assms
  by (cases "delivers d now a")
    (auto simp: reveals_def DeduperFire_delivers DeduperFire_suppresses split: option.split)

lemma reportTimes_deliveryTimes:
  "reveals P k (dNext d) (dCounters d) \<Longrightarrow> reportTimes P d ops = deliveryTimes k d ops"
  by (induction k d ops rule: deliveryTimes.induct) (simp_all add: case_prod_beta fire_reveals)

lemma pipeRun_reports:
  "reveals P k (dNext d) (dCounters d) \<Longrightarrow> list_ex P (snd (pipeRun d ops)) \<longleftrightarrow> deliveryTimes k d ops \<noteq> []"
  by (induction k d ops rule: deliveryTimes.induct) (auto simp: case_prod_beta fire_reveals)

text \<open>
  The reference: of the times at which a key fires, the first passes, and then each that lies
  at least the resend interval after the last one that passed.
\<close>

fun thinned :: "duration \<Rightarrow> time option \<Rightarrow> time list \<Rightarrow> time list" where
  "thinned gap prev [] = []"
| "thinned gap prev (t # ts) =
     (if (case prev of None \<Rightarrow> True | Some u \<Rightarrow> sint gap \<le> sint (timeSub t u))
      then t # thinned gap (Some t) ts else thinned gap prev ts)"

fun firingTimes :: "string \<Rightarrow> pipe_op list \<Rightarrow> time list" where
  "firingTimes k [] = []"
| "firingTimes k (FireOp now a # ops) = (if Key a = k then [now] else []) @ firingTimes k ops"
| "firingTimes k (ForgetOp k' # ops) = firingTimes k ops"

lemma deliveryTimes_thinned:
  "ForgetOp k \<notin> set ops \<Longrightarrow>
   deliveryTimes k d ops = thinned (dResend d) (mget (dLastSeen d) k) (firingTimes k ops)"
proof (induction k d ops rule: deliveryTimes.induct)
  case (2 k d now a ops)
  then show ?case
    by (cases "delivers d now a") (auto simp: DeduperFire_delivers DeduperFire_suppresses delivers_def)
qed auto

text \<open>
  C2.  Rate limit.  In every sequence of firings and forgets that does not forget the key, the
  firings whose output reports that key to the wrapped sink are exactly those a rate limiter
  lets pass: the first one if the key has no record, then each that comes at least the resend
  interval after the last report.  So the reports are at least that far apart.
\<close>

theorem deliveries_spaced:
  assumes "ForgetOp k \<notin> set ops" "reveals P k (dNext d) (dCounters d)"
  shows "reportTimes P d ops = thinned (dResend d) (mget (dLastSeen d) k) (firingTimes k ops) \<and>
     spaced (dResend d) (reportTimes P d ops)"
  using deliveryTimes_thinned [OF assms(1)] deliveryTimes_spaced [OF assms(1)]
  by (simp add: reportTimes_deliveryTimes [OF assms(2)])

text \<open>The log record of an alert names its key.\<close>

definition attr :: "string \<Rightarrow> (string \<times> string) list \<Rightarrow> string" where
  "attr n attrs = (case map_of attrs n of None \<Rightarrow> '''' | Some v \<Rightarrow> v)"

fun logsKey :: "string \<Rightarrow> call \<Rightarrow> bool" where
  "logsKey k (LogAttrs lvl msg attrs) \<longleftrightarrow> msg = ''reliability alert'' \<and>
     k = attr ''reason'' attrs @ CHR 0x7C # objectPart (attr ''kind'' attrs) (attr ''namespace'' attrs) (attr ''name'' attrs)
           @ CHR 0x7C # attr ''container'' attrs"
| "logsKey k _ \<longleftrightarrow> False"

definition fullSink :: Sink where
  "fullSink = MultiSinkFire [SlogSinkFire, EventSinkFire (Some metricsCounters)]"

lemma slog_logsKey: "list_ex (logsKey k) (SlogSinkFire a) \<longleftrightarrow> Key a = k"
  by (auto simp: SlogSinkFire_def Let_def attr_def Key_split)

lemma fullSink_reveals: "reveals (logsKey k) k fullSink (Some metricsCounters)"
  by (simp add: reveals_def fullSink_def slog_logsKey EventSinkFire_def Let_def metricsCounters_def
      AlertFired_def AlertSuppressed_def KubeEventEmitted_def)

definition demoAlert :: Alert where
  "demoAlert = emptyAlert\<lparr>alReason := ReasonCrashLoopBackOff, alSeverity := SeverityCritical,
     alKind := ''Pod'', alNamespace := ''default'', alName := ''boom'', alContainer := ''app''\<rparr>"

definition clockAt :: "int \<Rightarrow> time" where
  "clockAt s = \<lparr>wall = 1000000000 * (1 + s), mono = Some (1000000000 * s)\<rparr>"

theorem deliveries_spaced_witness:
  "reportTimes (logsKey (Key demoAlert)) (NewDeduper fullSink (10 * Minute) (Some metricsCounters))
     [FireOp (clockAt 0) demoAlert, FireOp (clockAt 5) demoAlert, FireOp (clockAt 660) demoAlert]
     = [clockAt 0, clockAt 660]"
proof -
  let ?d = "NewDeduper fullSink (10 * Minute) (Some metricsCounters)"
  let ?ops = "[FireOp (clockAt 0) demoAlert, FireOp (clockAt 5) demoAlert, FireOp (clockAt 660) demoAlert]"
  have "reveals (logsKey (Key demoAlert)) (Key demoAlert) (dNext ?d) (dCounters ?d)"
    by (simp add: NewDeduper_def fullSink_reveals)
  from deliveries_spaced [OF _ this, of ?ops]
  have "reportTimes (logsKey (Key demoAlert)) ?d ?ops = thinned (10 * Minute) None [clockAt 0, clockAt 5, clockAt 660]"
    by (simp add: NewDeduper_def)
  then show ?thesis by (simp add: clockAt_def timeSub_def sint_sat64 go_defs)
qed

text \<open>After a forget, the next firing of the key is delivered whatever the clock says.\<close>

lemma recurrence_after_forget:
  "\<exists>pre. snd (DeduperFire (DeduperForget d (Key a)) now a) = pre @ dNext d a"
proof -
  have "delivers (DeduperForget d (Key a)) now a"
    using dd.pass_after_drop [of d a now] by (simp add: offerAlert_def)
  then show ?thesis by (simp add: DeduperFire_delivers)
qed

text \<open>
  C36.  Pressure conditions of a node hide each other.  When one pressure alert of a node has just
  been delivered, every other pressure alert of that node, whichever condition raised it and
  whatever its message says, is suppressed until the resend interval is over: it reaches no
  sink and leaves the deduper as it is.
\<close>

theorem pressure_alert_hidden:
  assumes "a \<in> set (EvaluateNode (Some node) t now)" "b \<in> set (EvaluateNode (Some node) t' now')"
    and "alReason a = ReasonNodePressure" "alReason b = ReasonNodePressure"
    and "delivers d n1 a" "sint (timeSub n2 n1) < sint (dResend d)"
  shows "DeduperFire (fst (DeduperFire d n1 a)) n2 b =
     (fst (DeduperFire d n1 a),
      case dCounters d of None \<Rightarrow> [] | Some c \<Rightarrow> cAlertSuppressed c ReasonNodePressure)"
proof -
  let ?d = "fst (DeduperFire d n1 a)"
  have "Key b = Key a" using assms(2,1,4,3) by (rule NodePressure_same_key)
  then have "\<not> delivers ?d n2 b"
    using assms(5,6) by (simp add: delivers_def DeduperFire_delivers)
  then show ?thesis using assms(4) by (simp add: DeduperFire_suppresses split: option.split)
qed

theorem pressure_alert_hidden_witness:
  "\<exists>a b. EvaluateNode (Some pressedNode) DefaultThresholds zeroTime = [a, b] \<and> alMessage a \<noteq> alMessage b \<and>
     (\<forall>next. snd (DeduperFire (fst (DeduperFire (NewDeduper next Minute (Some metricsCounters)) zeroTime a)) zeroTime b) =
        AlertSuppressed ReasonNodePressure)"
proof -
  obtain a b where ab: "EvaluateNode (Some pressedNode) DefaultThresholds zeroTime = [a, b]"
      "alMessage a \<noteq> alMessage b" "alReason a = ReasonNodePressure" "alReason b = ReasonNodePressure"
    using pressedNode_alerts by blast
  have mem: "a \<in> set (EvaluateNode (Some pressedNode) DefaultThresholds zeroTime)"
      "b \<in> set (EvaluateNode (Some pressedNode) DefaultThresholds zeroTime)" by (simp_all add: ab(1))
  have "delivers (NewDeduper next Minute (Some metricsCounters)) zeroTime a"
      "sint (timeSub zeroTime zeroTime) < sint (dResend (NewDeduper next Minute (Some metricsCounters)))" for "next"
    by (simp_all add: delivers_def NewDeduper_def timeSub_def zeroTime_def sint_sat64 go_defs)
  from pressure_alert_hidden [OF mem ab(3,4) this] have
    "snd (DeduperFire (fst (DeduperFire (NewDeduper next Minute (Some metricsCounters)) zeroTime a)) zeroTime b) =
        AlertSuppressed ReasonNodePressure" for "next"
    by (simp add: NewDeduper_def metricsCounters_def)
  then show ?thesis using ab(1,2) by blast
qed

section \<open>Nothing stays hidden\<close>

lemma pipeRun_resend [simp, frame]: "dResend (fst (pipeRun d ops)) = dResend d"
proof (induction ops arbitrary: d)
  case (Cons op ops)
  then show ?case by (cases op) (simp_all add: case_prod_beta)
qed simp

lemma deliveryTimes_append:
  "deliveryTimes k d (xs @ ys) = deliveryTimes k d xs @ deliveryTimes k (fst (pipeRun d xs)) ys"
  by (induction k d xs rule: deliveryTimes.induct) (auto simp: case_prod_beta)

text \<open>What the deduper remembers of a key is a time at which it was delivered.\<close>

lemma lastSeen_delivered:
  "mget (dLastSeen (fst (pipeRun d ops))) k = Some t \<Longrightarrow>
   t \<in> set (deliveryTimes k d ops) \<or> mget (dLastSeen d) k = Some t"
proof (induction k d ops rule: deliveryTimes.induct)
  case (2 k d now a ops)
  then show ?case
    by (cases "delivers d now a")
      (auto simp: case_prod_beta DeduperFire_delivers DeduperFire_suppresses split: if_splits)
qed (auto split: if_splits)

text \<open>Whenever an alert is fired, its key was delivered less than the resend interval ago.\<close>

lemma fired_recently:
  assumes "dLastSeen d = []" "0 < sint (dResend d)" "FireOp now a \<in> set ops"
  shows "\<exists>t \<in> set (deliveryTimes (Key a) d ops). sint (timeSub now t) < sint (dResend d)"
proof -
  obtain xs ys where ops: "ops = xs @ FireOp now a # ys" using split_list [OF assms(3)] by blast
  let ?d = "fst (pipeRun d xs)"
  show ?thesis
  proof (cases "delivers ?d now a")
    case True
    have "timeSub now now = sat64 0" by (simp add: timeSub_def split: option.split)
    then have "sint (timeSub now now) < sint (dResend d)" using assms(2) by (simp add: sint_sat64)
    with True show ?thesis unfolding ops deliveryTimes_append by auto
  next
    case False
    then obtain t where t: "mget (dLastSeen ?d) (Key a) = Some t" "sint (timeSub now t) < sint (dResend d)"
      by (auto simp: delivers_def split: option.splits)
    from lastSeen_delivered [OF t(1)] assms(1) have "t \<in> set (deliveryTimes (Key a) d xs)" by simp
    with t(2) show ?thesis unfolding ops deliveryTimes_append by auto
  qed
qed

section \<open>Accounting\<close>

fun firings :: "pipe_op list \<Rightarrow> nat" where
  "firings [] = 0"
| "firings (FireOp now a # ops) = Suc (firings ops)"
| "firings (ForgetOp k # ops) = firings ops"

fun deliveries :: "Deduper \<Rightarrow> pipe_op list \<Rightarrow> nat" where
  "deliveries d [] = 0"
| "deliveries d (FireOp now a # ops) =
     (if delivers d now a then 1 else 0) + deliveries (fst (DeduperFire d now a)) ops"
| "deliveries d (ForgetOp k # ops) = deliveries (DeduperForget d k) ops"

lemma counter_names_distinct [simp]:
  "sentinel_alerts_fired_total \<noteq> sentinel_alerts_suppressed_total"
  "sentinel_alerts_suppressed_total \<noteq> sentinel_alerts_fired_total"
  "sentinel_kube_events_emitted_total \<noteq> sentinel_alerts_fired_total"
  "sentinel_alerts_fired_total \<noteq> sentinel_kube_events_emitted_total"
  "sentinel_kube_events_emitted_total \<noteq> sentinel_alerts_suppressed_total"
  "sentinel_alerts_suppressed_total \<noteq> sentinel_kube_events_emitted_total"
  by (simp_all add: const_defs)

lemma fire_calls:
  assumes "dNext d = fullSink" "dCounters d = Some metricsCounters"
  shows "snd (DeduperFire d now a) =
    (if delivers d now a
     then AlertFired (alReason a) (alSeverity a) @ SlogSinkFire a @ EventSinkFire (Some metricsCounters) a
     else AlertSuppressed (alReason a))"
  using assms
  by (simp add: DeduperFire_delivers DeduperFire_suppresses metricsCounters_def fullSink_def)

lemma fire_counts:
  assumes "dNext d = fullSink" "dCounters d = Some metricsCounters"
  shows "count_calls (is_counter sentinel_alerts_fired_total) (snd (DeduperFire d now a)) = (if delivers d now a then 1 else 0)"
    "count_calls (is_counter sentinel_alerts_suppressed_total) (snd (DeduperFire d now a)) = (if delivers d now a then 0 else 1)"
    "count_calls (is_counter sentinel_kube_events_emitted_total) (snd (DeduperFire d now a)) = (if delivers d now a then 1 else 0)"
    "count_calls is_event (snd (DeduperFire d now a)) = (if delivers d now a then 1 else 0)"
    "count_calls is_log (snd (DeduperFire d now a)) = (if delivers d now a then 1 else 0)"
  by (simp_all add: fire_calls [OF assms] AlertFired_def AlertSuppressed_def SlogSinkFire_def
      EventSinkFire_def Let_def metricsCounters_def KubeEventEmitted_def)

lemma pipeRun_counts:
  assumes "dNext d = fullSink" "dCounters d = Some metricsCounters"
  shows "count_calls (is_counter sentinel_alerts_fired_total) (snd (pipeRun d ops)) = deliveries d ops"
    "count_calls (is_counter sentinel_alerts_suppressed_total) (snd (pipeRun d ops)) + deliveries d ops = firings ops"
    "count_calls (is_counter sentinel_kube_events_emitted_total) (snd (pipeRun d ops)) = deliveries d ops"
    "count_calls is_event (snd (pipeRun d ops)) = deliveries d ops"
    "count_calls is_log (snd (pipeRun d ops)) = deliveries d ops"
  using assms
  by (induction d ops rule: deliveries.induct) (auto simp: case_prod_beta fire_counts)

section \<open>Independence of the wall clock\<close>

fun decisions :: "Deduper \<Rightarrow> pipe_op list \<Rightarrow> bool list" where
  "decisions d [] = []"
| "decisions d (FireOp now a # ops) = delivers d now a # decisions (fst (DeduperFire d now a)) ops"
| "decisions d (ForgetOp k # ops) = decisions (DeduperForget d k) ops"

definition same_mono :: "time \<Rightarrow> time \<Rightarrow> bool" where
  "same_mono t u \<longleftrightarrow> mono t \<noteq> None \<and> mono t = mono u"

fun same_op :: "pipe_op \<Rightarrow> pipe_op \<Rightarrow> bool" where
  "same_op (FireOp t a) (FireOp u b) \<longleftrightarrow> same_mono t u \<and> a = b"
| "same_op (ForgetOp k) (ForgetOp l) \<longleftrightarrow> k = l"
| "same_op _ _ \<longleftrightarrow> False"

definition same_record :: "Deduper \<Rightarrow> Deduper \<Rightarrow> bool" where
  "same_record d e \<longleftrightarrow> dResend d = dResend e \<and>
     (\<forall>k. rel_option same_mono (mget (dLastSeen d) k) (mget (dLastSeen e) k))"

lemma timeSub_same_mono: "same_mono t t' \<Longrightarrow> same_mono u u' \<Longrightarrow> timeSub t u = timeSub t' u'"
  by (auto simp: same_mono_def timeSub_def split: option.splits)

lemma delivers_same:
  assumes "same_record d e" "same_mono t u"
  shows "delivers d t a = delivers e u a"
proof -
  have "rel_option same_mono (mget (dLastSeen d) (Key a)) (mget (dLastSeen e) (Key a))"
    using assms(1) by (simp add: same_record_def)
  then show ?thesis
    using assms by (cases rule: option.rel_cases)
      (auto simp: delivers_def same_record_def dest: timeSub_same_mono [OF assms(2)])
qed

lemma fire_same:
  assumes "same_record d e" "same_mono t u"
  shows "same_record (fst (DeduperFire d t a)) (fst (DeduperFire e u a))"
  using assms delivers_same [OF assms, of a]
  by (cases "delivers d t a") (auto simp: DeduperFire_delivers DeduperFire_suppresses same_record_def)

lemma forget_same: "same_record d e \<Longrightarrow> same_record (DeduperForget d k) (DeduperForget e k)"
  by (auto simp: same_record_def)

lemma decisions_same:
  assumes "list_all2 same_op ops ops'" "same_record d e"
  shows "decisions d ops = decisions e ops'"
  using assms
proof (induction ops ops' arbitrary: d e rule: list_all2_induct)
  case (Cons op ops op' ops')
  then show ?case
    by (cases op; cases op') (auto simp: delivers_same fire_same forget_same)
qed simp

text \<open>
  C33.  Deduplication does not depend on the wall clock: two histories whose readings carry the
  same monotonic part, whatever their wall parts, lead to the same decisions.  A step of the
  system clock therefore neither releases nor delays a suppressed alert.
\<close>

theorem dedup_ignores_wall_clock:
  assumes "list_all2 same_op ops ops'"
  shows "decisions (NewDeduper next resend c) ops = decisions (NewDeduper next resend c) ops'"
  by (rule decisions_same [OF assms]) (simp add: same_record_def NewDeduper_def)

theorem dedup_ignores_wall_clock_witness:
  "decisions (NewDeduper (\<lambda>_. []) Minute None)
     [FireOp \<lparr>wall = 5, mono = Some 0\<rparr> demoAlert, FireOp \<lparr>wall = 10 ^ 18, mono = Some 9\<rparr> demoAlert]
   = [True, False]"
proof -
  have "decisions (NewDeduper (\<lambda>_. []) Minute None)
     [FireOp \<lparr>wall = 5, mono = Some 0\<rparr> demoAlert, FireOp \<lparr>wall = 10 ^ 18, mono = Some 9\<rparr> demoAlert]
    = decisions (NewDeduper (\<lambda>_. []) Minute None)
     [FireOp \<lparr>wall = 5, mono = Some 0\<rparr> demoAlert, FireOp \<lparr>wall = 6, mono = Some 9\<rparr> demoAlert]"
    by (rule dedup_ignores_wall_clock) (simp add: same_mono_def)
  also have "\<dots> = [True, False]"
    by (simp add: delivers_def DeduperFire_def NewDeduper_def timeSub_def sint_sat64)
  finally show ?thesis .
qed

lemma ActiveKeys_keys: "set (mkeys (ActiveKeys d)) = dom (mget (dLastSeen d))"
proof -
  have "mget (ActiveKeys d) k = (if k \<in> dom (mget (dLastSeen d)) then Some () else None)" for k
    by (simp add: ActiveKeys_def gm.get_fold_put_const gm.set_keys)
  then show ?thesis by (auto simp: gm.set_keys dom_def split: if_splits)
qed

end
