(* ===== verification/Restart_Tracker.thy ===== *)
theory Restart_Tracker
  imports Go_Strings K8s_Api
begin

text \<open>
  \<^verbatim>\<open>src/internal/watcher/restart_tracker.go\<close> and the key test of \<^verbatim>\<open>util.go\<close>: the sliding-window
  detector that turns restart counts into a rate.  Each method runs under the tracker's mutex,
  so a method call is one step.  The slice that \<^verbatim>\<open>observe\<close> filters in place is owned by the map
  entry it is written back to, so the filtered list is its new value.
\<close>

section \<open>Model\<close>

record containerHistory =
  lastCount :: int32
  increments :: "time list"

record restartTracker =
  rtWindow :: duration
  rtThreshold :: goint
  rtSeen :: "(string, containerHistory) gomap"

definition newRestartTracker :: "duration \<Rightarrow> goint \<Rightarrow> restartTracker" where
  "newRestartTracker window threshold = \<lparr>rtWindow = window, rtThreshold = threshold, rtSeen = []\<rparr>"

definition zeroHistory :: containerHistory where
  "zeroHistory = \<lparr>lastCount = 0, increments = []\<rparr>"

definition observe :: "restartTracker \<Rightarrow> string \<Rightarrow> int32 \<Rightarrow> time \<Rightarrow> restartTracker \<times> bool \<times> nat" where
  "observe r key count now =
     (let h = (case mget (rtSeen r) key of Some h \<Rightarrow> h | None \<Rightarrow> zeroHistory);
          h = (if sint count > sint (lastCount h)
               then h\<lparr>increments := increments h @ [now]\<rparr> else h);
          h = h\<lparr>lastCount := count\<rparr>;
          cutoff = timeAdd now (- rtWindow r);
          kept = filter (\<lambda>t. timeAfter t cutoff) (increments h);
          h = h\<lparr>increments := kept\<rparr>
      in (r\<lparr>rtSeen := mput (rtSeen r) key h\<rparr>,
          int (length kept) \<ge> sint (rtThreshold r), length kept))"

definition forget :: "restartTracker \<Rightarrow> string \<Rightarrow> restartTracker" where
  "forget r key = r\<lparr>rtSeen := mdel (rtSeen r) key\<rparr>"

definition podContainerKeyMatchesPod :: "string \<Rightarrow> string \<Rightarrow> bool" where
  "podContainerKeyMatchesPod containerKey podKey \<longleftrightarrow> hasPrefix containerKey (podKey @ ''/'')"

definition forgetPod :: "restartTracker \<Rightarrow> string \<Rightarrow> restartTracker" where
  "forgetPod r podKey =
     r\<lparr>rtSeen := fold (\<lambda>k m. if podContainerKeyMatchesPod k podKey then mdel m k else m)
                  (mkeys (rtSeen r)) (rtSeen r)\<rparr>"

section \<open>Keyed components\<close>

text \<open>
  The contract of a component whose state is a table of independent entries: an operation
  changes the entry of its own key only, as a function of that entry.  Then the entry of a key
  depends only on the operations on that key.
\<close>

locale keyed =
  fixes get :: "'s \<Rightarrow> 'k \<Rightarrow> 'v option"
    and ok :: "'s \<Rightarrow> bool"
    and step :: "'op \<Rightarrow> 's \<Rightarrow> 's"
    and key :: "'op \<Rightarrow> 'k"
    and upd :: "'op \<Rightarrow> 'v option \<Rightarrow> 'v option"
  assumes get_step: "ok s \<Longrightarrow> get (step op s) = (get s)(key op := upd op (get s (key op)))"
    and ok_step: "ok s \<Longrightarrow> ok (step op s)"
begin

lemma get_fold:
  "ok s \<Longrightarrow> get (fold step ops s) k = fold upd (filter (\<lambda>op. key op = k) ops) (get s k)"
  by (induction ops arbitrary: s) (auto simp: get_step ok_step)

end

type_synonym observation = "string \<times> int32 \<times> time"

definition obsStep :: "observation \<Rightarrow> restartTracker \<Rightarrow> restartTracker" where
  "obsStep ob r = (case ob of (key, count, now) \<Rightarrow> fst (observe r key count now))"

definition histStep :: "duration \<Rightarrow> observation \<Rightarrow> containerHistory option \<Rightarrow> containerHistory option" where
  "histStep w ob ho =
     (case ob of (key, count, now) \<Rightarrow>
        (let h = (case ho of Some h \<Rightarrow> h | None \<Rightarrow> zeroHistory) in
         Some \<lparr>lastCount = count,
               increments = filter (\<lambda>t. timeAfter t (timeAdd now (- w)))
                 (increments h @ (if sint (lastCount h) < sint count then [now] else []))\<rparr>))"

lemma observe_seen:
  "mget (rtSeen (fst (observe r key count now))) =
     (mget (rtSeen r))(key := histStep (rtWindow r) (key, count, now) (mget (rtSeen r) key))"
  by (auto simp: observe_def histStep_def Let_def fun_eq_iff)

lemma observe_frame [simp, frame]:
  "rtWindow (fst (observe r key count now)) = rtWindow r"
  "rtThreshold (fst (observe r key count now)) = rtThreshold r"
  by (simp_all add: observe_def Let_def)

interpretation tracked: keyed "\<lambda>r. mget (rtSeen r)" "\<lambda>r. rtWindow r = w" obsStep fst "histStep w"
  for w
  by unfold_locales (auto simp: obsStep_def observe_seen case_prod_beta)

interpretation trackerDel: deletable "\<lambda>r. mget (rtSeen r)" forget
  by unfold_locales (simp add: forget_def)

section \<open>The window equals the full history\<close>

text \<open>The times at which the count rose, over the whole history of a container.\<close>

fun riseTimes :: "int32 \<Rightarrow> observation list \<Rightarrow> time list" where
  "riseTimes c [] = []"
| "riseTimes c ((k, count, now) # obs) =
     (if sint c < sint count then [now] else []) @ riseTimes count obs"

definition inWindow :: "duration \<Rightarrow> time \<Rightarrow> time \<Rightarrow> bool" where
  "inWindow w now t \<longleftrightarrow> ticks_of now - ticks_of t < sint w"

definition obs_ok :: "observation list \<Rightarrow> bool" where
  "obs_ok obs \<longleftrightarrow> (\<forall>ob \<in> set obs. from_clock (snd (snd ob))) \<and>
     sorted (map (\<lambda>ob. ticks_of (snd (snd ob))) obs)"

lemma riseTimes_append:
  "riseTimes c (obs @ [(k, count, now)]) =
     riseTimes c obs @ (if sint (if obs = [] then c else fst (snd (last obs))) < sint count then [now] else [])"
  by (induction c obs rule: riseTimes.induct) auto

lemma riseTimes_mem: "t \<in> set (riseTimes c obs) \<Longrightarrow> \<exists>ob \<in> set obs. t = snd (snd ob)"
  by (induction c obs rule: riseTimes.induct) (auto split: if_splits)

lemma obs_ok_append:
  "obs_ok (obs @ [ob]) \<longleftrightarrow> obs_ok obs \<and> from_clock (snd (snd ob)) \<and>
     (\<forall>o' \<in> set obs. ticks_of (snd (snd o')) \<le> ticks_of (snd (snd ob)))"
  by (auto simp: obs_ok_def sorted_append)

lemma histStep_fold:
  assumes "obs \<noteq> []" "obs_ok obs" "0 \<le> sint w"
  shows "fold (histStep w) obs None =
     Some \<lparr>lastCount = fst (snd (last obs)),
           increments = filter (inWindow w (snd (snd (last obs)))) (riseTimes 0 obs)\<rparr>"
  using assms(1,2)
proof (induction obs rule: rev_induct)
  case (snoc ob obs)
  obtain k c now where ob: "ob = (k, c, now)" by (cases ob)
  have clk: "from_clock now" using snoc.prems(2) by (simp add: obs_ok_append ob)
  have cut: "timeAfter t (timeAdd now (- w)) \<longleftrightarrow> inWindow w now t" if "from_clock t" for t
    using timeAfter_cutoff [OF that clk assms(3)] by (simp add: inWindow_def)
  show ?case
  proof (cases "obs = []")
    case True
    then show ?thesis using cut [OF clk] by (auto simp: histStep_def zeroHistory_def ob)
  next
    case False
    let ?rs = "riseTimes 0 obs" and ?new = "if sint (fst (snd (last obs))) < sint c then [now] else []"
    have ok: "obs_ok obs" and le: "ticks_of (snd (snd (last obs))) \<le> ticks_of now"
      using snoc.prems(2) False by (simp_all add: obs_ok_append ob)
    have weaker: "filter (inWindow w now) (filter (inWindow w (snd (snd (last obs)))) ?rs) = filter (inWindow w now) ?rs"
      using le by (intro filter_filter_weaker) (simp add: inWindow_def)
    have "from_clock t" if "t \<in> set (?rs @ ?new)" for t
      using that clk ok by (auto simp: obs_ok_def dest!: riseTimes_mem split: if_splits)
    then have "filter (\<lambda>t. timeAfter t (timeAdd now (- w))) (filter (inWindow w (snd (snd (last obs)))) ?rs @ ?new)
        = filter (inWindow w now) (filter (inWindow w (snd (snd (last obs)))) ?rs @ ?new)"
      by (intro filter_cong) (auto simp: cut)
    also have "\<dots> = filter (inWindow w now) (?rs @ ?new)"
      by (simp only: filter_append weaker)
    finally show ?thesis
      using snoc.IH [OF False ok] False by (simp add: histStep_def ob riseTimes_append)
  qed
qed simp

text \<open>
  C3.  Sliding window.  However the observations of all containers interleave, what the tracker
  keeps for a container is exactly the part of that container's full history of count increases
  that lies inside the window ending at its latest observation; discarding old entries
  never loses one that still counts.
\<close>

theorem tracker_window_exact:
  assumes "obs_ok (filter (\<lambda>ob. fst ob = k) obs)" "filter (\<lambda>ob. fst ob = k) obs \<noteq> []" "0 \<le> sint w"
  shows "mget (rtSeen (fold obsStep obs (newRestartTracker w n))) k =
     Some \<lparr>lastCount = fst (snd (last (filter (\<lambda>ob. fst ob = k) obs))),
           increments = filter (inWindow w (snd (snd (last (filter (\<lambda>ob. fst ob = k) obs)))))
             (riseTimes 0 (filter (\<lambda>ob. fst ob = k) obs))\<rparr>"
proof -
  have "mget (rtSeen (fold obsStep obs (newRestartTracker w n))) k =
      fold (histStep w) (filter (\<lambda>ob. fst ob = k) obs) None"
    using tracked.get_fold [of "newRestartTracker w n" w obs k] by (simp add: newRestartTracker_def)
  then show ?thesis using histStep_fold [OF assms(2,1,3)] by simp
qed

definition clockSec :: "int \<Rightarrow> time" where
  "clockSec s = \<lparr>wall = 1000000000 * (1 + s), mono = Some (1000000000 * s)\<rparr>"

definition demoObs :: "observation list" where
  "demoObs = [(''k'', 1, clockSec 0), (''other'', 4, clockSec 20), (''k'', 2, clockSec 30),
              (''k'', 3, clockSec 120)]"

theorem tracker_window_exact_witness:
  "mget (rtSeen (fold obsStep demoObs (newRestartTracker Minute 3))) ''k'' =
     Some \<lparr>lastCount = 3, increments = [clockSec 120]\<rparr>"
proof -
  have "obs_ok (filter (\<lambda>ob. fst ob = ''k'') demoObs)"
    by (simp add: demoObs_def obs_ok_def clockSec_def from_clock_def ticks_of_def)
  note tracker_window_exact [OF this, of Minute 3]
  then show ?thesis
    by (simp add: demoObs_def clockSec_def inWindow_def ticks_of_def)
qed

lemma observe_result:
  "snd (observe r key count now) =
     (let n = length (increments (the (mget (rtSeen (fst (observe r key count now))) key)))
      in (sint (rtThreshold r) \<le> int n, n))"
  by (simp add: observe_def Let_def)

text \<open>
  C11.  The verdict of an observation counts the increases inside the window: a burst is
  reported exactly when the full history has at least the threshold's number of increases in
  the window that ends now, this observation included.
\<close>

theorem observe_burst_iff:
  assumes "obs_ok (filter (\<lambda>ob. fst ob = k) obs @ [(k, count, now)])" "0 \<le> sint w"
  shows "snd (observe (fold obsStep obs (newRestartTracker w th)) k count now) =
     (let n = length (filter (inWindow w now) (riseTimes 0 (filter (\<lambda>ob. fst ob = k) obs @ [(k, count, now)])))
      in (sint th \<le> int n, n))"
proof -
  let ?r = "fold obsStep obs (newRestartTracker w th)" and ?os = "filter (\<lambda>ob. fst ob = k) obs"
  have w: "rtWindow (fold obsStep obs r) = rtWindow r" "rtThreshold (fold obsStep obs r) = rtThreshold r" for r
    by (induction obs arbitrary: r) (auto simp: obsStep_def)
  have "mget (rtSeen (fst (observe ?r k count now))) k = fold (histStep w) (?os @ [(k, count, now)]) None"
    using tracked.get_fold [of "newRestartTracker w th" w obs k]
    by (simp add: observe_seen w newRestartTracker_def)
  also have "\<dots> = Some \<lparr>lastCount = count,
      increments = filter (inWindow w now) (riseTimes 0 (?os @ [(k, count, now)]))\<rparr>"
    using histStep_fold [of "?os @ [(k, count, now)]" w] assms by simp
  finally show ?thesis by (simp add: observe_result Let_def w newRestartTracker_def)
qed

theorem observe_burst_iff_witness:
  "snd (observe (fold obsStep [(''k'', 1, clockSec 0), (''k'', 2, clockSec 15)] (newRestartTracker Minute 3))
     ''k'' 3 (clockSec 40)) = (True, 3)"
proof -
  have "obs_ok (filter (\<lambda>ob. fst ob = ''k'') [(''k'', 1, clockSec 0), (''k'', 2, clockSec 15)] @ [(''k'', 3, clockSec 40)])"
    by (simp add: obs_ok_def clockSec_def from_clock_def ticks_of_def)
  note observe_burst_iff [OF this, of Minute 3]
  then show ?thesis by (simp add: inWindow_def clockSec_def ticks_of_def)
qed

text \<open>
  The first observation of a container counts as an increase whenever its restart count is
  positive, although no increase was observed: the remembered count starts at zero.
\<close>

lemma first_observation_counts:
  "mget (rtSeen r) key = None \<Longrightarrow> 0 < sint count \<Longrightarrow> from_clock now \<Longrightarrow> 0 < sint (rtWindow r) \<Longrightarrow>
   snd (observe r key count now) = (sint (rtThreshold r) \<le> 1, 1)"
  using timeAfter_cutoff [of now now "rtWindow r"]
  by (simp add: observe_def zeroHistory_def)

section \<open>Forgetting a Pod\<close>

definition containerKey :: "string \<Rightarrow> string \<Rightarrow> string \<Rightarrow> string" where
  "containerKey ns nm c = (ns @ ''/'' @ nm) @ ''/'' @ c"

lemma matches_own_pod_iff:
  assumes "plain ns" "plain nm" "plain ns'" "plain nm'"
  shows "podContainerKeyMatchesPod (containerKey ns' nm' c) (ns @ ''/'' @ nm) \<longleftrightarrow> ns' = ns \<and> nm' = nm"
proof -
  have "containerKey ns' nm' c = ns' @ CHR ''/'' # nm' @ CHR ''/'' # c"
    by (simp add: containerKey_def)
  moreover have "(ns' @ CHR ''/'' # nm' @ CHR ''/'' # c = ns @ CHR ''/'' # nm @ CHR ''/'' # t) \<longleftrightarrow>
      ns' = ns \<and> nm' = nm \<and> c = t" for t
    using assms append_sep_inject [of "CHR ''/''" ns' ns] append_sep_inject [of "CHR ''/''" nm' nm]
    by (auto simp: plain_def)
  ultimately show ?thesis
    by (auto simp: podContainerKeyMatchesPod_def hasPrefix_iff)
qed

lemma forgetPod_seen:
  "mget (rtSeen (forgetPod r podKey)) k =
     (if podContainerKeyMatchesPod k podKey then None else mget (rtSeen r) k)"
  by (auto simp: forgetPod_def gm.get_fold_del_if gm.set_keys)

lemma forgetPod_frame [simp, frame]:
  "rtWindow (forgetPod r p) = rtWindow r" "rtThreshold (forgetPod r p) = rtThreshold r"
  by (simp_all add: forgetPod_def)

text \<open>
  C28.  Forgetting a Pod removes the history of exactly its own containers: another Pod's
  containers keep theirs, even when one Pod's name is a prefix of the other's.
\<close>

theorem forgetPod_exact:
  assumes "plain ns" "plain nm" "plain ns'" "plain nm'"
  shows "mget (rtSeen (forgetPod r (ns @ ''/'' @ nm))) (containerKey ns' nm' c) =
     (if ns' = ns \<and> nm' = nm then None else mget (rtSeen r) (containerKey ns' nm' c))"
  by (simp only: forgetPod_seen matches_own_pod_iff [OF assms])

theorem forgetPod_exact_witness:
  "let r = fst (observe (fst (observe (newRestartTracker Minute 1) ''d/web/app'' 1 (clockSec 0))) ''d/web2/app'' 1 (clockSec 0))
   in mget (rtSeen (forgetPod r ''d/web'')) ''d/web/app'' = None \<and>
      mget (rtSeen (forgetPod r ''d/web'')) ''d/web2/app'' = mget (rtSeen r) ''d/web2/app''"
  using forgetPod_exact [of "''d''" "''web''" "''d''" "''web''" _ "''app''"]
    forgetPod_exact [of "''d''" "''web''" "''d''" "''web2''" _ "''app''"]
  by (simp add: plain_def containerKey_def Let_def)

end
