(* ===== verification/Controller.thy ===== *)
theory Controller
  imports Alert_Pipeline Restart_Tracker
begin

text \<open>
  \<^verbatim>\<open>src/internal/watcher/controller.go\<close>: the controller that reconciles one object at a time.

  The state holds what the Go struct mutates: the deduper, the restart tracker, the table of
  active alerts, the readiness flag and the library calls made so far.  Reading the clock is
  explicit: \<open>clk\<close> gives the successive readings of \<^verbatim>\<open>time.Now\<close> and the state counts how many
  were taken.  The informer caches (listers), the Unicode table and the work queue belong to
  libraries; they are arguments.  The alert sink is the deduper itself, as \<^verbatim>\<open>cmd/sentinel\<close> wires it.
\<close>

section \<open>State\<close>

record Options =
  oNamespace :: string
  oThresholds :: Thresholds
  oWatchNodes :: bool
  oResyncPeriod :: duration
  oRapidRestartWindow :: duration
  oRapidRestartCount :: goint
  oClearGracePeriod :: duration
  oWorkers :: goint

record alertState =
  clearingSince :: time

record queueKey =
  qkKind :: string
  qkNamespace :: string
  qkName :: string

definition objectKey :: "queueKey \<Rightarrow> string" where
  "objectKey k =
     (if qkNamespace k = '''' then qkKind k @ ''|'' @ qkName k
      else qkKind k @ ''|'' @ qkNamespace k @ ''/'' @ qkName k)"

type_synonym states = "(string, alertState) gomap"

record Controller =
  cOpts :: Options
  cDeduper :: Deduper
  cMetrics :: Metrics
  cTracker :: restartTracker
  cActive :: "(string, states) gomap"
  cClearGrace :: duration
  cOut :: "call list"
  cTicks :: nat

text \<open>What a lister's \<^verbatim>\<open>Get\<close> returns.\<close>

datatype 'a getResult = Found 'a | NotFound | GetErr string

record world =
  wIsPrint :: "nat \<Rightarrow> bool"
  wPodGet :: "string \<Rightarrow> string \<Rightarrow> Pod getResult"
  wNodeGet :: "string \<Rightarrow> Node getResult"
  wPodList :: "nat option"
  wNodeList :: "nat option"

definition New :: "Options \<Rightarrow> Deduper \<Rightarrow> Metrics \<Rightarrow> Controller" where
  "New opts deduper m =
     (let opts = (if sint (oWorkers opts) \<le> 0 then opts\<lparr>oWorkers := 2\<rparr> else opts);
          clearGrace = oClearGracePeriod opts;
          clearGrace =
            (if sint clearGrace \<le> 0 then
               (let clearGrace = 2 * oResyncPeriod opts in
                if sint clearGrace < sint (90 * Second) then 90 * Second else clearGrace)
             else clearGrace)
      in \<lparr>cOpts = opts, cDeduper = deduper, cMetrics = m,
          cTracker = newRestartTracker (oRapidRestartWindow opts) (oRapidRestartCount opts),
          cActive = [], cClearGrace = clearGrace, cOut = [], cTicks = 0\<rparr>)"

text \<open>
  The informer factories \<^verbatim>\<open>New\<close> builds from the options: how often they resync and the namespace
  they are limited to, if any.  Nodes get their own factory, without a namespace.
\<close>

record informerFactory =
  ifResync :: duration
  ifNamespace :: "string option"

definition podFactory :: "Options \<Rightarrow> informerFactory" where
  "podFactory opts =
     \<lparr>ifResync = oResyncPeriod opts,
      ifNamespace = (if oNamespace opts \<noteq> '''' then Some (oNamespace opts) else None)\<rparr>"

definition nodeFactory :: "Options \<Rightarrow> informerFactory option" where
  "nodeFactory opts =
     (if oWatchNodes opts then Some \<lparr>ifResync = oResyncPeriod opts, ifNamespace = None\<rparr> else None)"

section \<open>Delivering alerts\<close>

definition timeNow :: "(nat \<Rightarrow> time) \<Rightarrow> Controller \<Rightarrow> time \<times> Controller" where
  "timeNow clk c = (clk (cTicks c), c\<lparr>cTicks := Suc (cTicks c)\<rparr>)"

definition emit :: "Controller \<Rightarrow> call list \<Rightarrow> Controller" where
  "emit c calls = c\<lparr>cOut := cOut c @ calls\<rparr>"

text \<open>\<^verbatim>\<open>c.sink.Fire\<close>: the deduper reads its clock and passes the alert on or not.\<close>

definition sinkFire :: "(nat \<Rightarrow> time) \<Rightarrow> Alert \<Rightarrow> Controller \<Rightarrow> Controller" where
  "sinkFire clk a c =
     (let (now, c) = timeNow clk c;
          (d, calls) = DeduperFire (cDeduper c) now a
      in emit (c\<lparr>cDeduper := d\<rparr>) calls)"

definition fireStep ::
  "(nat \<Rightarrow> time) \<Rightarrow> Alert \<Rightarrow> (string, unit) gomap \<times> Controller \<Rightarrow> (string, unit) gomap \<times> Controller"
where
  "fireStep clk a cc = (case cc of (current, c) \<Rightarrow> (mput current (Key a) (), sinkFire clk a c))"

text \<open>One iteration of the loop over the tracked alerts of an object.\<close>

definition ageStep ::
  "(string, unit) gomap \<Rightarrow> time \<Rightarrow> duration \<Rightarrow> string \<times> alertState \<Rightarrow> states \<times> Deduper \<Rightarrow> states \<times> Deduper"
where
  "ageStep current now grace entry sd =
     (case (entry, sd) of ((k, st), (states, d)) \<Rightarrow>
        if mget current k \<noteq> None then (states, d)
        else if timeIsZero (clearingSince st) then (mput states k \<lparr>clearingSince = now\<rparr>, d)
        else if sint (timeSub now (clearingSince st)) \<ge> sint grace
          then (mdel states k, DeduperForget d k)
        else (states, d))"

definition deliver :: "(nat \<Rightarrow> time) \<Rightarrow> Controller \<Rightarrow> string \<Rightarrow> Alert list \<Rightarrow> Controller" where
  "deliver clk c objKey alerts =
     (let (now, c) = timeNow clk c;
          (current, c) = fold (fireStep clk) alerts ([], c);
          states = (case mget (cActive c) objKey of Some s \<Rightarrow> s | None \<Rightarrow> []);
          states = fold (\<lambda>k s. mput s k \<lparr>clearingSince = zeroTime\<rparr>) (mkeys current) states;
          (states, d) = fold (ageStep current now (cClearGrace c)) states (states, cDeduper c)
      in c\<lparr>cDeduper := d,
           cActive := (if states = [] then mdel (cActive c) objKey else mput (cActive c) objKey states)\<rparr>)"

definition clearObject :: "Controller \<Rightarrow> string \<Rightarrow> Controller" where
  "clearObject c objKey =
     (let states = (case mget (cActive c) objKey of Some s \<Rightarrow> s | None \<Rightarrow> []);
          d = fold (\<lambda>k d. DeduperForget d k) (mkeys states) (cDeduper c)
      in c\<lparr>cDeduper := d, cActive := mdel (cActive c) objKey\<rparr>)"

section \<open>Reconciling\<close>

definition rapidRestartMessage :: "(nat \<Rightarrow> bool) \<Rightarrow> ContainerStatus \<Rightarrow> nat \<Rightarrow> duration \<Rightarrow> string" where
  "rapidRestartMessage isPrint cs n window =
     ''Container '' @ quote isPrint (csName cs) @ '' restarted '' @ intString (int n)
     @ '' times within '' @ durationString window"

definition rapidStep ::
  "(nat \<Rightarrow> bool) \<Rightarrow> Pod \<Rightarrow> duration \<Rightarrow> time \<Rightarrow> ContainerStatus \<Rightarrow> Alert list \<times> restartTracker \<Rightarrow> Alert list \<times> restartTracker"
where
  "rapidStep isPrint pod window now cs acc =
     (case acc of (out, tr) \<Rightarrow>
        let podKey = podNamespace pod @ ''/'' @ podName pod;
            ckey = podKey @ ''/'' @ csName cs;
            (tr, burst, n) = observe tr ckey (csRestartCount cs) now
        in (if burst then
              out @ [\<lparr>alReason = ReasonRapidRestart, alSeverity = SeverityCritical, alKind = ''Pod'',
                      alNamespace = podNamespace pod, alName = podName pod, alUID = podUID pod,
                      alContainer = csName cs,
                      alMessage = rapidRestartMessage isPrint cs n window\<rparr>]
            else out, tr))"

definition rapidRestartAlerts ::
  "(nat \<Rightarrow> bool) \<Rightarrow> Controller \<Rightarrow> Pod \<Rightarrow> time \<Rightarrow> Alert list \<times> Controller"
where
  "rapidRestartAlerts isPrint c pod now =
     (if sint (oRapidRestartCount (cOpts c)) \<le> 0 then ([], c)
      else (let (out, tr) = fold (rapidStep isPrint pod (oRapidRestartWindow (cOpts c)) now)
                              (podContainerStatuses pod) ([], cTracker c)
            in (out, c\<lparr>cTracker := tr\<rparr>)))"

definition reconcilePod ::
  "(nat \<Rightarrow> time) \<Rightarrow> world \<Rightarrow> Controller \<Rightarrow> queueKey \<Rightarrow> Controller \<times> string option"
where
  "reconcilePod clk w c key =
     (let (now, c) = timeNow clk c in
      case wPodGet w (qkNamespace key) (qkName key) of
        NotFound \<Rightarrow>
          (let c = clearObject c (objectKey key) in
           (c\<lparr>cTracker := forgetPod (cTracker c) (qkNamespace key @ ''/'' @ qkName key)\<rparr>, None))
      | GetErr err \<Rightarrow> (c, Some err)
      | Found pod \<Rightarrow>
          (let alerts = EvaluatePod (wIsPrint w) (Some pod) (oThresholds (cOpts c)) now;
               (rapid, c) = rapidRestartAlerts (wIsPrint w) c pod now
           in (deliver clk c (objectKey key) (alerts @ rapid), None)))"

definition reconcileNode ::
  "(nat \<Rightarrow> time) \<Rightarrow> world \<Rightarrow> Controller \<Rightarrow> queueKey \<Rightarrow> Controller \<times> string option"
where
  "reconcileNode clk w c key =
     (let (now, c) = timeNow clk c in
      case wNodeGet w (qkName key) of
        NotFound \<Rightarrow> (clearObject c (objectKey key), None)
      | GetErr err \<Rightarrow> (c, Some err)
      | Found node \<Rightarrow>
          (let alerts = EvaluateNode (Some node) (oThresholds (cOpts c)) now
           in (deliver clk c (objectKey key) alerts, None)))"

definition reconcile ::
  "(nat \<Rightarrow> time) \<Rightarrow> world \<Rightarrow> Controller \<Rightarrow> queueKey \<Rightarrow> Controller \<times> string option"
where
  "reconcile clk w c key =
     (if qkKind key = ''Pod'' then reconcilePod clk w c key
      else if qkKind key = ''Node'' then reconcileNode clk w c key
      else (c, Some (''watcher: unknown kind '' @ quote (wIsPrint w) (qkKind key))))"

section \<open>Gauges\<close>

definition firing :: "states \<Rightarrow> bool" where
  "firing states \<longleftrightarrow> list_ex (\<lambda>(k, st). timeIsZero (clearingSince st)) states"

definition countUnhealthy :: "(string, states) gomap \<Rightarrow> nat" where
  "countUnhealthy active =
     fold (\<lambda>(k, states) n. if \<not> hasPrefix k ''Pod|'' then n
                            else if firing states then n + 1 else n) active 0"

definition refreshGauges :: "world \<Rightarrow> Controller \<Rightarrow> Controller" where
  "refreshGauges w c =
     (let c = (case wPodList w of
                 Some n \<Rightarrow> emit c [GaugeSet sentinel_pods_watched (int n)] | None \<Rightarrow> c);
          c = (if oWatchNodes (cOpts c) then
                 (case wNodeList w of
                    Some n \<Rightarrow> emit c [GaugeSet sentinel_nodes_watched (int n)] | None \<Rightarrow> c)
               else c)
      in emit c [GaugeSet sentinel_unhealthy_pods (int (countUnhealthy (cActive c)))])"

section \<open>The work queue\<close>

text \<open>
  The operations of client-go's rate-limiting queue, on an abstract queue state.  \<open>qGet\<close>
  returns no key when the queue is shutting down.
\<close>

record 'q workqueue =
  qAdd :: "queueKey \<Rightarrow> 'q \<Rightarrow> 'q"
  qGet :: "'q \<Rightarrow> queueKey option \<times> 'q"
  qDone :: "queueKey \<Rightarrow> 'q \<Rightarrow> 'q"
  qNumRequeues :: "queueKey \<Rightarrow> 'q \<Rightarrow> int"
  qAddRateLimited :: "queueKey \<Rightarrow> 'q \<Rightarrow> 'q"
  qForget :: "queueKey \<Rightarrow> 'q \<Rightarrow> 'q"

definition processNext ::
  "'q workqueue \<Rightarrow> (nat \<Rightarrow> time) \<Rightarrow> world \<Rightarrow> Controller \<times> 'q \<Rightarrow> bool \<times> Controller \<times> 'q"
where
  "processNext wq clk w cq =
     (case cq of (c, q) \<Rightarrow>
      case qGet wq q of
        (None, q) \<Rightarrow> (False, c, q)
      | (Some key, q) \<Rightarrow>
          (let (start, c) = timeNow clk c;
               (c, err) = reconcile clk w c key;
               (end, c) = timeNow clk c;
               c = emit c (ObserveReconcile (qkKind key) (timeSub end start) err)
           in case err of
                Some e \<Rightarrow>
                  if qNumRequeues wq key q < 5 then
                    (True,
                     emit c [LogAttrs LevelWarn ''reconcile failed, requeueing''
                       [(''key'', objectKey key), (''err'', e)]],
                     qDone wq key (qAddRateLimited wq key q))
                  else
                    (True,
                     emit c [LogAttrs LevelError ''reconcile failed permanently, dropping''
                       [(''key'', objectKey key), (''err'', e)]],
                     qDone wq key (qForget wq key q))
              | None \<Rightarrow> (True, c, qDone wq key (qForget wq key q))))"

text \<open>
  The event handlers.  The key function and its inverse are client-go's; a \<^verbatim>\<open>Delete\<close> event may
  carry a tombstone around the last known object.
\<close>

datatype 'o informerObj = Obj 'o | DeletedFinalStateUnknown 'o

fun metaNamespaceKey :: "('o \<Rightarrow> string option) \<Rightarrow> 'o informerObj \<Rightarrow> string option" where
  "metaNamespaceKey keyFunc (DeletedFinalStateUnknown obj) = keyFunc obj"
| "metaNamespaceKey keyFunc (Obj obj) = keyFunc obj"

definition enqueuePod ::
  "'q workqueue \<Rightarrow> ('o \<Rightarrow> string option) \<Rightarrow> (string \<Rightarrow> string \<times> string) \<Rightarrow> 'o informerObj \<Rightarrow> 'q \<Rightarrow> 'q"
where
  "enqueuePod wq keyFunc splitKey obj q =
     (case metaNamespaceKey keyFunc obj of
        None \<Rightarrow> q
      | Some key \<Rightarrow>
          (let (ns, name) = splitKey key
           in qAdd wq \<lparr>qkKind = ''Pod'', qkNamespace = ns, qkName = name\<rparr> q))"

definition enqueueNode ::
  "'q workqueue \<Rightarrow> ('o \<Rightarrow> string option) \<Rightarrow> (string \<Rightarrow> string \<times> string) \<Rightarrow> 'o informerObj \<Rightarrow> 'q \<Rightarrow> 'q"
where
  "enqueueNode wq keyFunc splitKey obj q =
     (case metaNamespaceKey keyFunc obj of
        None \<Rightarrow> q
      | Some key \<Rightarrow>
          (let (_, name) = splitKey key
           in qAdd wq \<lparr>qkKind = ''Node'', qkNamespace = '''', qkName = name\<rparr> q))"

definition nsForLog :: "string \<Rightarrow> string" where
  "nsForLog ns = (if ns = '''' then ''(all)'' else ns)"

end
