(* ===== verification/Controller_Delivery.thy ===== *)
theory Controller_Delivery
  imports Controller
begin

text \<open>
  What delivering an object's alerts does to the tables, entry by entry: the life cycle of a
  tracked alert as a three-state machine, and the deduper's view of a reconcile as a sequence
  of firings and forgets.
\<close>

section \<open>Abstract life cycle of one alert\<close>

text \<open>
  A tracked alert is absent, firing, or clearing since some time.  \<open>nextState\<close> is what one
  delivery at time \<open>now\<close> makes of it, given whether the alert is present now.
\<close>

definition isFiring :: "alertState \<Rightarrow> bool" where
  "isFiring st \<longleftrightarrow> timeIsZero (clearingSince st)"

definition firingState :: alertState where
  "firingState = \<lparr>clearingSince = zeroTime\<rparr>"

definition expired :: "duration \<Rightarrow> time \<Rightarrow> alertState \<Rightarrow> bool" where
  "expired grace now st \<longleftrightarrow> \<not> isFiring st \<and> sint grace \<le> sint (timeSub now (clearingSince st))"

definition nextState :: "duration \<Rightarrow> time \<Rightarrow> bool \<Rightarrow> alertState option \<Rightarrow> alertState option" where
  "nextState grace now present old =
     (if present then Some firingState
      else case old of
        None \<Rightarrow> None
      | Some st \<Rightarrow>
          if isFiring st then Some \<lparr>clearingSince = now\<rparr>
          else if expired grace now st then None
          else Some st)"

definition activeOf :: "Controller \<Rightarrow> string \<Rightarrow> string \<Rightarrow> alertState option" where
  "activeOf c obj k = (case mget (cActive c) obj of None \<Rightarrow> None | Some s \<Rightarrow> mget s k)"

definition statesOf :: "Controller \<Rightarrow> string \<Rightarrow> states" where
  "statesOf c obj = (case mget (cActive c) obj of None \<Rightarrow> [] | Some s \<Rightarrow> s)"

lemma activeOf_statesOf: "activeOf c obj k = mget (statesOf c obj) k"
  by (simp add: activeOf_def statesOf_def split: option.split)

lemma statesOf_frame [simp, frame]:
  "statesOf (c\<lparr>cDeduper := d\<rparr>) = statesOf c" "statesOf (c\<lparr>cOut := calls\<rparr>) = statesOf c"
  "statesOf (c\<lparr>cTicks := n\<rparr>) = statesOf c" "statesOf (c\<lparr>cTracker := tr\<rparr>) = statesOf c"
  by (simp_all add: statesOf_def fun_eq_iff)

text \<open>Every table of alerts is a well-formed map, and none is stored empty.\<close>

definition tables_ok :: "Controller \<Rightarrow> bool" where
  "tables_ok c \<longleftrightarrow> map_ok (cActive c) \<and> map_ok (dLastSeen (cDeduper c)) \<and>
     (\<forall>obj s. mget (cActive c) obj = Some s \<longrightarrow> map_ok s \<and> s \<noteq> [])"

lemma tables_ok_states: "tables_ok c \<Longrightarrow> map_ok (statesOf c obj)"
  by (auto simp: tables_ok_def statesOf_def split: option.split)

section \<open>The firing loop\<close>

fun fireOps :: "(nat \<Rightarrow> time) \<Rightarrow> nat \<Rightarrow> Alert list \<Rightarrow> pipe_op list" where
  "fireOps clk n [] = []"
| "fireOps clk n (a # as) = FireOp (clk n) a # fireOps clk (Suc n) as"

lemma pipeRun_append:
  "pipeRun d (xs @ ys) =
     (fst (pipeRun (fst (pipeRun d xs)) ys), snd (pipeRun d xs) @ snd (pipeRun (fst (pipeRun d xs)) ys))"
  by (induction d xs rule: deliveries.induct) (auto simp: case_prod_beta)

lemma pipeRun_forgets:
  "pipeRun d (map ForgetOp ks) = (fold (\<lambda>k d. DeduperForget d k) ks d, [])"
  by (induction ks arbitrary: d) auto

lemma sinkFire_eq:
  "sinkFire clk a c =
     c\<lparr>cDeduper := fst (DeduperFire (cDeduper c) (clk (cTicks c)) a),
       cOut := cOut c @ snd (DeduperFire (cDeduper c) (clk (cTicks c)) a),
       cTicks := Suc (cTicks c)\<rparr>"
  by (simp add: sinkFire_def timeNow_def emit_def case_prod_beta)

lemma fold_sinkFire:
  "fold (sinkFire clk) alerts c =
     c\<lparr>cDeduper := fst (pipeRun (cDeduper c) (fireOps clk (cTicks c) alerts)),
       cOut := cOut c @ snd (pipeRun (cDeduper c) (fireOps clk (cTicks c) alerts)),
       cTicks := cTicks c + length alerts\<rparr>"
  by (induction alerts arbitrary: c) (simp_all add: sinkFire_eq case_prod_beta)

lemma fold_fireStep:
  "fold (fireStep clk) alerts (cur, c) =
     (fold (\<lambda>k m. mput m k ()) (map Key alerts) cur, fold (sinkFire clk) alerts c)"
  by (induction alerts arbitrary: cur c) (simp_all add: fireStep_def)

definition currentKeys :: "Alert list \<Rightarrow> (string, unit) gomap" where
  "currentKeys alerts = fold (\<lambda>k m. mput m k ()) (map Key alerts) []"

lemma currentKeys_get: "mget (currentKeys alerts) k = (if k \<in> Key ` set alerts then Some () else None)"
  by (simp add: currentKeys_def gm.get_fold_put_const)

lemma set_currentKeys: "set (mkeys (currentKeys alerts)) = Key ` set alerts"
  by (auto simp: gm.set_keys currentKeys_get dom_def)

section \<open>The ageing loop\<close>

definition ageOne :: "(string, unit) gomap \<Rightarrow> time \<Rightarrow> duration \<Rightarrow> string \<times> alertState \<Rightarrow> states \<Rightarrow> states" where
  "ageOne current now grace e s =
     (if mget current (fst e) \<noteq> None then s
      else if isFiring (snd e) then mput s (fst e) \<lparr>clearingSince = now\<rparr>
      else if expired grace now (snd e) then mdel s (fst e) else s)"

definition expiredKeys :: "(string, unit) gomap \<Rightarrow> time \<Rightarrow> duration \<Rightarrow> states \<Rightarrow> string list" where
  "expiredKeys current now grace es =
     map fst (filter (\<lambda>e. mget current (fst e) = None \<and> expired grace now (snd e)) es)"

lemma fold_ageStep:
  "fold (ageStep current now grace) es (s, d) =
     (fold (ageOne current now grace) es s,
      fold (\<lambda>k d. DeduperForget d k) (expiredKeys current now grace es) d)"
  by (induction es arbitrary: s d)
    (auto simp: ageStep_def ageOne_def expiredKeys_def expired_def isFiring_def)

lemma fold_ageOne_get:
  assumes "distinct (map fst es)"
  shows "mget (fold (ageOne current now grace) es s) k =
     (case map_of es k of None \<Rightarrow> mget s k | Some st \<Rightarrow> mget (ageOne current now grace (k, st) s) k)"
  using assms
proof (induction es arbitrary: s)
  case (Cons e es)
  obtain k' st' where e: "e = (k', st')" by (cases e)
  have other: "mget (ageOne current now grace (k', st') s) j = mget s j" if "j \<noteq> k'" for j s
    using that by (simp add: ageOne_def)
  have fresh: "map_of es k' = None"
    using Cons.prems by (simp add: e map_of_eq_None_iff)
  show ?case
  proof (cases "k = k'")
    case True
    then show ?thesis using Cons fresh by (simp add: e)
  next
    case False
    with Cons show ?thesis by (simp add: e other ageOne_def split: option.split)
  qed
qed simp

lemma map_ok_fold_ageOne: "map_ok s \<Longrightarrow> map_ok (fold (ageOne current now grace) es s)"
  by (induction es arbitrary: s) (auto simp: ageOne_def)

section \<open>A delivery, entry by entry\<close>

definition markedStates :: "Alert list \<Rightarrow> states \<Rightarrow> states" where
  "markedStates alerts s = fold (\<lambda>k s. mput s k firingState) (mkeys (currentKeys alerts)) s"

lemma markedStates_get:
  "mget (markedStates alerts s) k = (if k \<in> Key ` set alerts then Some firingState else mget s k)"
  by (simp add: markedStates_def gm.get_fold_put_const set_currentKeys)

lemma markedStates_ok: "map_ok s \<Longrightarrow> map_ok (markedStates alerts s)"
  unfolding markedStates_def by (rule gm.ok_fold_put)

definition agedStates :: "duration \<Rightarrow> time \<Rightarrow> Alert list \<Rightarrow> states \<Rightarrow> states" where
  "agedStates grace now alerts s =
     fold (ageOne (currentKeys alerts) now grace) (markedStates alerts s) (markedStates alerts s)"

lemma agedStates_get:
  assumes "map_ok s"
  shows "mget (agedStates grace now alerts s) k = nextState grace now (k \<in> Key ` set alerts) (mget s k)"
proof -
  have "distinct (map fst (markedStates alerts s))"
    using markedStates_ok [OF assms] by (simp add: map_ok_def)
  note get = fold_ageOne_get [OF this, of "currentKeys alerts" now grace "markedStates alerts s" k]
  have look: "map_of (markedStates alerts s) k = mget (markedStates alerts s) k"
    by (simp add: mget_def)
  show ?thesis
    unfolding agedStates_def get look markedStates_get
    by (auto simp: ageOne_def currentKeys_get nextState_def markedStates_get split: option.split)
qed

text \<open>The deduper's records that a delivery drops.\<close>

definition droppedKeys :: "duration \<Rightarrow> time \<Rightarrow> Alert list \<Rightarrow> states \<Rightarrow> string list" where
  "droppedKeys grace now alerts s = expiredKeys (currentKeys alerts) now grace (markedStates alerts s)"

lemma set_droppedKeys:
  assumes "map_ok s"
  shows "k \<in> set (droppedKeys grace now alerts s) \<longleftrightarrow>
     k \<notin> Key ` set alerts \<and> (\<exists>st. mget s k = Some st \<and> expired grace now st)"
proof -
  have mem: "(k, st) \<in> set (markedStates alerts s) \<longleftrightarrow> mget (markedStates alerts s) k = Some st" for st
    using mget_eq_iff_mem [OF markedStates_ok [OF assms]] by simp
  have "k \<in> set (droppedKeys grace now alerts s) \<longleftrightarrow>
      k \<notin> Key ` set alerts \<and> (\<exists>st. (k, st) \<in> set (markedStates alerts s) \<and> expired grace now st)"
    by (force simp: droppedKeys_def expiredKeys_def currentKeys_get image_iff split: if_splits)
  then show ?thesis by (auto simp: mem markedStates_get)
qed

definition deliverOps :: "(nat \<Rightarrow> time) \<Rightarrow> Controller \<Rightarrow> string \<Rightarrow> Alert list \<Rightarrow> pipe_op list" where
  "deliverOps clk c obj alerts =
     fireOps clk (Suc (cTicks c)) alerts @
     map ForgetOp (droppedKeys (cClearGrace c) (clk (cTicks c)) alerts (statesOf c obj))"

lemma deliver_eq:
  "deliver clk c obj alerts =
     (let s = agedStates (cClearGrace c) (clk (cTicks c)) alerts (statesOf c obj);
          p = pipeRun (cDeduper c) (deliverOps clk c obj alerts)
      in c\<lparr>cDeduper := fst p, cOut := cOut c @ snd p, cTicks := Suc (cTicks c) + length alerts,
           cActive := (if s = [] then mdel (cActive c) obj else mput (cActive c) obj s)\<rparr>)"
  unfolding deliver_def timeNow_def fold_fireStep currentKeys_def [symmetric] fold_sinkFire
  by (simp add: Let_def case_prod_beta statesOf_def [symmetric] firingState_def [symmetric]
      markedStates_def [symmetric] fold_ageStep agedStates_def deliverOps_def droppedKeys_def
      pipeRun_append pipeRun_forgets)

lemma deliver_frame [simp, frame]:
  "cOpts (deliver clk c obj alerts) = cOpts c" "cTracker (deliver clk c obj alerts) = cTracker c"
  "cClearGrace (deliver clk c obj alerts) = cClearGrace c" "cMetrics (deliver clk c obj alerts) = cMetrics c"
  "cTicks (deliver clk c obj alerts) = Suc (cTicks c) + length alerts"
  "cDeduper (deliver clk c obj alerts) = fst (pipeRun (cDeduper c) (deliverOps clk c obj alerts))"
  "cOut (deliver clk c obj alerts) = cOut c @ snd (pipeRun (cDeduper c) (deliverOps clk c obj alerts))"
  by (simp_all add: deliver_eq Let_def)

lemma statesOf_deliver:
  "statesOf (deliver clk c obj alerts) obj' =
     (if obj' = obj then agedStates (cClearGrace c) (clk (cTicks c)) alerts (statesOf c obj)
      else statesOf c obj')"
  by (simp add: deliver_eq Let_def statesOf_def)

lemma activeOf_deliver:
  assumes "tables_ok c"
  shows "activeOf (deliver clk c obj alerts) obj' k =
     (if obj' = obj
      then nextState (cClearGrace c) (clk (cTicks c)) (k \<in> Key ` set alerts) (activeOf c obj k)
      else activeOf c obj' k)"
  using agedStates_get [OF tables_ok_states [OF assms]]
  by (simp add: activeOf_statesOf statesOf_deliver)

lemma clearObject_eq:
  "clearObject c obj =
     c\<lparr>cDeduper := fst (pipeRun (cDeduper c) (map ForgetOp (mkeys (statesOf c obj)))),
       cActive := mdel (cActive c) obj\<rparr>"
  by (simp add: clearObject_def statesOf_def Let_def pipeRun_forgets)

lemma statesOf_clearObject:
  "statesOf (clearObject c obj) obj' = (if obj' = obj then [] else statesOf c obj')"
  by (simp add: clearObject_eq statesOf_def)

section \<open>The deduper's records under a sequence of operations\<close>

lemma fire_lastSeen_dom:
  "dom (mget (dLastSeen (fst (DeduperFire d now a)))) = insert (Key a) (dom (mget (dLastSeen d)))"
  by (cases "delivers d now a")
    (auto simp: DeduperFire_delivers DeduperFire_suppresses delivers_def split: option.splits)

lemma fireOps_lastSeen_dom:
  "dom (mget (dLastSeen (fst (pipeRun d (fireOps clk n alerts))))) =
     dom (mget (dLastSeen d)) \<union> Key ` set alerts"
  by (induction alerts arbitrary: d n) (auto simp: case_prod_beta fire_lastSeen_dom)

lemma forgets_lastSeen_dom:
  "dom (mget (dLastSeen (fst (pipeRun d (map ForgetOp ks))))) = dom (mget (dLastSeen d)) - set ks"
  by (auto simp: pipeRun_forgets dd.get_fold_del split: if_splits)

lemma deliverOps_lastSeen_dom:
  "dom (mget (dLastSeen (fst (pipeRun d (deliverOps clk c obj alerts))))) =
     (dom (mget (dLastSeen d)) \<union> Key ` set alerts)
       - set (droppedKeys (cClearGrace c) (clk (cTicks c)) alerts (statesOf c obj))"
  by (simp add: deliverOps_def pipeRun_append forgets_lastSeen_dom fireOps_lastSeen_dom)

lemma pipeRun_lastSeen_ok:
  "map_ok (dLastSeen d) \<Longrightarrow> map_ok (dLastSeen (fst (pipeRun d ops)))"
proof (induction d ops rule: deliveries.induct)
  case (2 d now a ops)
  then show ?case
    by (cases "delivers d now a") (simp_all add: case_prod_beta DeduperFire_delivers DeduperFire_suppresses)
qed simp_all

lemma pipeRun_frame [simp, frame]:
  "dNext (fst (pipeRun d ops)) = dNext d" "dResend (fst (pipeRun d ops)) = dResend d"
  "dCounters (fst (pipeRun d ops)) = dCounters d"
  by (induction d ops rule: deliveries.induct) (simp_all add: case_prod_beta)

text \<open>A controller as the command line configures it by default, and a clock.\<close>

definition demoOptions :: Options where
  "demoOptions = \<lparr>oNamespace = '''', oThresholds = DefaultThresholds, oWatchNodes = True,
     oResyncPeriod = 60 * Second, oRapidRestartWindow = 2 * Minute, oRapidRestartCount = 3,
     oClearGracePeriod = 0, oWorkers = 0\<rparr>"

definition demoController :: Controller where
  "demoController = New demoOptions (NewDeduper fullSink (10 * Minute) (Some metricsCounters)) \<lparr>ready = True\<rparr>"

definition demoClock :: "nat \<Rightarrow> time" where
  "demoClock i = \<lparr>wall = 1000000000 + int i, mono = Some (int i)\<rparr>"

lemma demoController_ok: "tables_ok demoController"
  by (simp add: demoController_def demoOptions_def New_def Let_def NewDeduper_def tables_ok_def)

text \<open>
  Life cycle.  Delivering an object's alerts moves every tracked alert of that object through
  the three-state machine (present: firing; absent and firing: clearing since now; absent
  and clearing for the grace period: dropped), leaves the alerts of all other objects alone, and
  keeps the deduper in step: afterwards it has a record of exactly the present alerts and of
  those recorded before that did not expire in this delivery.
\<close>

lemma deliver_life_cycle:
  assumes "tables_ok c"
  shows "activeOf (deliver clk c obj alerts) obj' k =
     (if obj' = obj
      then nextState (cClearGrace c) (clk (cTicks c)) (k \<in> Key ` set alerts) (activeOf c obj k)
      else activeOf c obj' k) \<and>
   (mget (dLastSeen (cDeduper (deliver clk c obj alerts))) k \<noteq> None \<longleftrightarrow>
      k \<in> Key ` set alerts \<or>
      mget (dLastSeen (cDeduper c)) k \<noteq> None \<and>
      \<not> (\<exists>st. activeOf c obj k = Some st \<and> expired (cClearGrace c) (clk (cTicks c)) st))"
proof -
  have "mget (dLastSeen (cDeduper (deliver clk c obj alerts))) k \<noteq> None \<longleftrightarrow>
      k \<in> dom (mget (dLastSeen (cDeduper (deliver clk c obj alerts))))"
    by (simp add: domIff)
  also have "\<dots> \<longleftrightarrow> k \<in> Key ` set alerts \<or>
      mget (dLastSeen (cDeduper c)) k \<noteq> None \<and>
      \<not> (\<exists>st. activeOf c obj k = Some st \<and> expired (cClearGrace c) (clk (cTicks c)) st)"
    unfolding deliver_frame deliverOps_lastSeen_dom Diff_iff set_droppedKeys [OF tables_ok_states [OF assms]]
      activeOf_statesOf Un_iff domIff
    by blast
  finally show ?thesis using activeOf_deliver [OF assms] by blast
qed

end
