(* ===== verification/Controller_Invariant.thy ===== *)
theory Controller_Invariant
  imports Controller_Delivery
begin

text \<open>
  The invariant that ties the controller's table of active alerts to the deduper's records,
  and its preservation by every operation: tables are well formed, every tracked alert belongs
  to the object it is filed under, and the deduper remembers exactly the tracked alerts.
\<close>

section \<open>What a reconcile sees\<close>

datatype view = VGone | VFailed string | VAlerts "Alert list" restartTracker

definition viewOf :: "(nat \<Rightarrow> time) \<Rightarrow> world \<Rightarrow> Controller \<Rightarrow> queueKey \<Rightarrow> view" where
  "viewOf clk w c key =
     (let now = clk (cTicks c) in
      if qkKind key = ''Pod'' then
        (case wPodGet w (qkNamespace key) (qkName key) of
           NotFound \<Rightarrow> VGone
         | GetErr e \<Rightarrow> VFailed e
         | Found pod \<Rightarrow>
             VAlerts (EvaluatePod (wIsPrint w) (Some pod) (oThresholds (cOpts c)) now
                        @ fst (rapidRestartAlerts (wIsPrint w) c pod now))
                     (cTracker (snd (rapidRestartAlerts (wIsPrint w) c pod now))))
      else if qkKind key = ''Node'' then
        (case wNodeGet w (qkName key) of
           NotFound \<Rightarrow> VGone
         | GetErr e \<Rightarrow> VFailed e
         | Found node \<Rightarrow> VAlerts (EvaluateNode (Some node) (oThresholds (cOpts c)) now) (cTracker c))
      else VFailed (''watcher: unknown kind '' @ quote (wIsPrint w) (qkKind key)))"

definition known :: "queueKey \<Rightarrow> bool" where
  "known key \<longleftrightarrow> qkKind key = ''Pod'' \<or> qkKind key = ''Node''"

definition tick :: "Controller \<Rightarrow> Controller" where
  "tick c = c\<lparr>cTicks := Suc (cTicks c)\<rparr>"

lemma rapidRestartAlerts_snd:
  "snd (rapidRestartAlerts p c pod now) = c\<lparr>cTracker := cTracker (snd (rapidRestartAlerts p c pod now))\<rparr>"
  by (simp add: rapidRestartAlerts_def case_prod_beta)

lemma rapidRestartAlerts_tick:
  "rapidRestartAlerts p (tick c) pod now =
     (fst (rapidRestartAlerts p c pod now),
      (tick c)\<lparr>cTracker := cTracker (snd (rapidRestartAlerts p c pod now))\<rparr>)"
  by (simp add: rapidRestartAlerts_def tick_def case_prod_beta)

lemma reconcile_view:
  "reconcile clk w c key =
     (case viewOf clk w c key of
        VGone \<Rightarrow> ((clearObject (tick c) (objectKey key))\<lparr>cTracker :=
            (if qkKind key = ''Pod'' then forgetPod (cTracker c) (qkNamespace key @ ''/'' @ qkName key)
             else cTracker c)\<rparr>, None)
      | VFailed e \<Rightarrow> (if known key then tick c else c, Some e)
      | VAlerts alerts tr \<Rightarrow> (deliver clk ((tick c)\<lparr>cTracker := tr\<rparr>) (objectKey key) alerts, None))"
proof -
  have Node: "''Node'' \<noteq> ''Pod''" by simp
  have tr: "cTracker (clearObject c obj) = cTracker c" for c obj
    by (simp add: clearObject_eq)
  have same: "(clearObject (tick c) obj)\<lparr>cTracker := cTracker c\<rparr> = clearObject (tick c) obj" for obj
    by (simp add: clearObject_eq tick_def)
  show ?thesis
    unfolding reconcile_def reconcilePod_def reconcileNode_def viewOf_def timeNow_def known_def Let_def
      tick_def [symmetric]
    by (auto simp: rapidRestartAlerts_tick tr same split: getResult.split)
      (simp_all add: tick_def)
qed

section \<open>Ownership of keys\<close>

text \<open>
  The keys the event handlers put on the queue, and what the listers promise: an object found
  under a name carries that name.
\<close>

definition wf_key :: "queueKey \<Rightarrow> bool" where
  "wf_key key \<longleftrightarrow> plain (qkNamespace key) \<and> plain (qkName key) \<and>
     (qkKind key = ''Pod'' \<or> qkKind key = ''Node'' \<and> qkNamespace key = '''')"

definition lister_ok :: "world \<Rightarrow> bool" where
  "lister_ok w \<longleftrightarrow>
     (\<forall>ns nm pod. wPodGet w ns nm = Found pod \<longrightarrow> podNamespace pod = ns \<and> podName pod = nm) \<and>
     (\<forall>nm node. wNodeGet w nm = Found node \<longrightarrow> nodeName node = nm)"

definition owns :: "string \<Rightarrow> string \<Rightarrow> bool" where
  "owns obj k \<longleftrightarrow> (\<exists>key r c. wf_key key \<and> obj = objectKey key \<and> bar_free r \<and>
     k = r @ CHR 0x7C # objectPart (qkKind key) (qkNamespace key) (qkName key) @ CHR 0x7C # c)"

lemma wf_key_bar_free: "wf_key key \<Longrightarrow> bar_free (qkKind key)"
  by (auto simp: wf_key_def bar_free_def)

text \<open>An alert key names its object, so two objects never own the same key.\<close>

lemma owns_unique:
  assumes "owns obj k" "owns obj' k"
  shows "obj = obj'"
proof -
  from assms obtain key r c key' r' c' where
    wf: "wf_key key" "wf_key key'" and obj: "obj = objectKey key" "obj' = objectKey key'"
    and bar: "bar_free r" "bar_free r'"
    and eq: "r @ CHR 0x7C # objectPart (qkKind key) (qkNamespace key) (qkName key) @ CHR 0x7C # c =
             r' @ CHR 0x7C # objectPart (qkKind key') (qkNamespace key') (qkName key') @ CHR 0x7C # c'"
    unfolding owns_def by metis
  have "objectPart (qkKind key) (qkNamespace key) (qkName key) @ CHR 0x7C # c =
        objectPart (qkKind key') (qkNamespace key') (qkName key') @ CHR 0x7C # c'"
    using eq append_sep_inject [of "CHR 0x7C" r r'] bar by (simp add: bar_free_def)
  then have "qkKind key = qkKind key' \<and> qkNamespace key = qkNamespace key' \<and> qkName key = qkName key'"
    using objectPart_bar_cancel [OF wf_key_bar_free [OF wf(1)] wf_key_bar_free [OF wf(2)]] wf
    by (auto simp: wf_key_def)
  then show ?thesis unfolding obj by (simp add: objectKey_def)
qed

subsection \<open>The restart detector names its Pod\<close>

lemma fold_rapidStep_fst:
  "a \<in> set (fst (fold (rapidStep p pod wd now) css (out, tr))) \<Longrightarrow>
   a \<in> set out \<or> alKind a = ''Pod'' \<and> alNamespace a = podNamespace pod \<and> alName a = podName pod \<and>
     alReason a = ReasonRapidRestart"
proof (induction css arbitrary: out tr)
  case (Cons cs css)
  obtain out' tr' where step: "rapidStep p pod wd now cs (out, tr) = (out', tr')"
    by (cases "rapidStep p pod wd now cs (out, tr)")
  then have "b \<in> set out \<or> alKind b = ''Pod'' \<and> alNamespace b = podNamespace pod \<and>
      alName b = podName pod \<and> alReason b = ReasonRapidRestart" if "b \<in> set out'" for b
    using that by (auto simp: rapidStep_def Let_def case_prod_beta split: if_splits)
  with Cons step show ?case by fastforce
qed simp

lemma rapidRestartAlerts_names:
  assumes "a \<in> set (fst (rapidRestartAlerts p c pod now))"
  shows "alKind a = ''Pod'' \<and> alNamespace a = podNamespace pod \<and> alName a = podName pod \<and>
     alReason a = ReasonRapidRestart"
  using assms fold_rapidStep_fst [of a p pod _ now _ "[]" "cTracker c"]
  by (fastforce simp: rapidRestartAlerts_def case_prod_beta split: if_splits)

interpretation rapid_source: alert_source "\<lambda>x now. fst (rapidRestartAlerts p (fst x) (snd x) now)" "''Pod''"
    "\<lambda>x. podNamespace (snd x)" "\<lambda>x. podName (snd x)"
  by unfold_locales (auto dest!: rapidRestartAlerts_names, simp add: bar_free_def)

lemma viewOf_owned:
  assumes "viewOf clk w c key = VAlerts alerts tr" "wf_key key" "lister_ok w"
  shows "\<forall>k \<in> Key ` set alerts. owns (objectKey key) k"
proof -
  have shape: "\<exists>r x. bar_free r \<and> k = r @ CHR 0x7C # objectPart (qkKind key) (qkNamespace key) (qkName key) @ CHR 0x7C # x"
    if k: "k \<in> Key ` set alerts" for k
  proof (cases "qkKind key = ''Pod''")
    case True
    then obtain pod where pod: "wPodGet w (qkNamespace key) (qkName key) = Found pod"
      and alerts: "alerts = EvaluatePod (wIsPrint w) (Some pod) (oThresholds (cOpts c)) (clk (cTicks c))
          @ fst (rapidRestartAlerts (wIsPrint w) c pod (clk (cTicks c)))"
      using assms(1) by (auto simp: viewOf_def Let_def split: getResult.splits)
    have ids: "podNamespace pod = qkNamespace key" "podName pod = qkName key"
      using assms(3) pod by (auto simp: lister_ok_def)
    show ?thesis
      using k pod_source.key_of_object [of k "wIsPrint w" pod "oThresholds (cOpts c)" "clk (cTicks c)"]
        rapid_source.key_of_object [of k "wIsPrint w" "(c, pod)" "clk (cTicks c)"] ids True
      unfolding alerts by (auto simp: image_Un)
  next
    case False
    then have kind: "qkKind key = ''Node''" "qkNamespace key = ''''"
      using assms(2) by (auto simp: wf_key_def)
    then obtain node where node: "wNodeGet w (qkName key) = Found node"
      and alerts: "alerts = EvaluateNode (Some node) (oThresholds (cOpts c)) (clk (cTicks c))"
      using assms(1) by (auto simp: viewOf_def Let_def split: getResult.splits)
    have "nodeName node = qkName key" using assms(3) node by (auto simp: lister_ok_def)
    then show ?thesis
      using k node_source.key_of_object [of k node "oThresholds (cOpts c)" "clk (cTicks c)"] kind
      unfolding alerts by auto
  qed
  then show ?thesis unfolding owns_def using assms(2) by blast
qed

section \<open>The invariant\<close>

definition trackedKeys :: "Controller \<Rightarrow> string set" where
  "trackedKeys c = {k. \<exists>obj. activeOf c obj k \<noteq> None}"

definition ctrl_inv :: "Controller \<Rightarrow> bool" where
  "ctrl_inv c \<longleftrightarrow> tables_ok c \<and> (\<forall>obj k. activeOf c obj k \<noteq> None \<longrightarrow> owns obj k) \<and>
     dom (mget (dLastSeen (cDeduper c))) = trackedKeys c"

lemma ctrl_inv_frame [simp, frame]:
  "ctrl_inv (c\<lparr>cTicks := n\<rparr>) = ctrl_inv c" "ctrl_inv (c\<lparr>cTracker := tr\<rparr>) = ctrl_inv c"
  "ctrl_inv (c\<lparr>cOut := calls\<rparr>) = ctrl_inv c" "ctrl_inv (c\<lparr>cMetrics := m\<rparr>) = ctrl_inv c"
  by (simp_all add: ctrl_inv_def tables_ok_def trackedKeys_def activeOf_def)

lemma one_owner:
  "ctrl_inv c \<Longrightarrow> activeOf c obj k \<noteq> None \<Longrightarrow> activeOf c obj' k \<noteq> None \<Longrightarrow> obj' = obj"
  unfolding ctrl_inv_def by (meson owns_unique)

lemma tables_ok_deliver:
  assumes "tables_ok c"
  shows "tables_ok (deliver clk c obj alerts)"
proof -
  have "map_ok (agedStates g now alerts (statesOf c obj))" for g now
    unfolding agedStates_def
    by (intro map_ok_fold_ageOne markedStates_ok tables_ok_states [OF assms])
  then show ?thesis
    using assms by (auto simp: tables_ok_def deliver_eq Let_def pipeRun_lastSeen_ok split: if_splits)
qed

lemma tables_ok_clearObject: "tables_ok c \<Longrightarrow> tables_ok (clearObject c obj)"
  by (auto simp: tables_ok_def clearObject_eq pipeRun_lastSeen_ok split: if_splits)

lemma deliver_inv:
  assumes inv: "ctrl_inv c" and own: "\<forall>k \<in> Key ` set alerts. owns obj k"
  shows "ctrl_inv (deliver clk c obj alerts)"
proof -
  let ?c = "deliver clk c obj alerts"
  let ?D = "set (droppedKeys (cClearGrace c) (clk (cTicks c)) alerts (statesOf c obj))"
  have t: "tables_ok c" using inv by (simp add: ctrl_inv_def)
  note act = activeOf_deliver [OF t, of clk obj alerts]
  have dropped: "k \<in> ?D \<longleftrightarrow> k \<notin> Key ` set alerts \<and>
      (\<exists>st. activeOf c obj k = Some st \<and> expired (cClearGrace c) (clk (cTicks c)) st)" for k
    using set_droppedKeys [OF tables_ok_states [OF t]] by (simp add: activeOf_statesOf)
  have here: "activeOf ?c obj k \<noteq> None \<longleftrightarrow> (activeOf c obj k \<noteq> None \<or> k \<in> Key ` set alerts) \<and> k \<notin> ?D" for k
    unfolding act dropped by (auto simp: nextState_def expired_def split: option.split)
  have there: "activeOf ?c obj' k = activeOf c obj' k" if "obj' \<noteq> obj" for obj' k
    using that by (simp add: act)
  have owned: "owns obj' k" if "activeOf ?c obj' k \<noteq> None" for obj' k
    using that here [of k] there [of obj' k] own inv by (cases "obj' = obj") (auto simp: ctrl_inv_def)
  have elsewhere: "obj' = obj" if "activeOf c obj' k \<noteq> None" "k \<in> ?D" for obj' k
  proof -
    have "activeOf c obj k \<noteq> None" using that(2) dropped by auto
    then show ?thesis using one_owner [OF inv] that(1) by blast
  qed
  have both: "activeOf ?c obj' k \<noteq> None \<longleftrightarrow>
      k \<notin> ?D \<and> (activeOf c obj' k \<noteq> None \<or> obj' = obj \<and> k \<in> Key ` set alerts)" for obj' k
  proof (cases "obj' = obj")
    case True
    then show ?thesis using here [of k] by blast
  next
    case False
    then show ?thesis using there [OF False, of k] elsewhere [of obj' k] by metis
  qed
  have "trackedKeys ?c = (trackedKeys c \<union> Key ` set alerts) - ?D"
    unfolding trackedKeys_def both by blast
  then show ?thesis
    using inv owned tables_ok_deliver [OF t, of clk obj alerts]
    by (simp add: ctrl_inv_def deliverOps_lastSeen_dom)
qed

lemma clearObject_inv:
  assumes inv: "ctrl_inv c"
  shows "ctrl_inv (clearObject c obj)"
proof -
  let ?c = "clearObject c obj" and ?K = "set (mkeys (statesOf c obj))"
  have act: "activeOf ?c obj' k = (if obj' = obj then None else activeOf c obj' k)" for obj' k
    by (simp add: activeOf_statesOf statesOf_clearObject)
  have K: "k \<in> ?K \<longleftrightarrow> activeOf c obj k \<noteq> None" for k
    by (auto simp: gm.set_keys activeOf_statesOf)
  have lastSeen: "dom (mget (dLastSeen (cDeduper ?c))) = dom (mget (dLastSeen (cDeduper c))) - ?K"
    by (simp add: clearObject_eq forgets_lastSeen_dom)
  have "trackedKeys ?c = trackedKeys c - ?K"
  proof (rule set_eqI)
    fix k
    show "k \<in> trackedKeys ?c \<longleftrightarrow> k \<in> trackedKeys c - ?K"
      unfolding trackedKeys_def Diff_iff K mem_Collect_eq act using one_owner [OF inv, of obj k] by metis
  qed
  then show ?thesis
    using inv tables_ok_clearObject [of c obj]
    by (simp add: ctrl_inv_def act lastSeen)
qed

lemma reconcile_inv:
  assumes "ctrl_inv c" "wf_key key" "lister_ok w"
  shows "ctrl_inv (fst (reconcile clk w c key))"
proof (cases "viewOf clk w c key")
  case VGone
  with assms(1) show ?thesis by (simp add: reconcile_view clearObject_inv tick_def)
next
  case (VFailed e)
  with assms(1) show ?thesis by (simp add: reconcile_view tick_def)
next
  case (VAlerts alerts tr)
  then show ?thesis
    using deliver_inv [of "(tick c)\<lparr>cTracker := tr\<rparr>"] viewOf_owned [OF VAlerts assms(2,3)] assms(1)
    by (simp add: reconcile_view tick_def)
qed

end
