(* ===== verification/Controller_Runs.thy ===== *)
theory Controller_Runs
  imports Controller_Invariant
begin

text \<open>
  The controller as a transition system, and the properties of its runs: what the tables hold
  in every reachable state, how deletion and errors are handled, and how often one alert can
  reach the sinks over a whole history of reconciles.
\<close>

section \<open>Transition system\<close>

datatype event = Reconcile world queueKey | Refresh world

inductive ctrl_step :: "(nat \<Rightarrow> time) \<Rightarrow> Controller \<Rightarrow> event \<Rightarrow> Controller \<Rightarrow> bool" for clk where
  reconciled: "wf_key key \<Longrightarrow> lister_ok w \<Longrightarrow>
     ctrl_step clk c (Reconcile w key) (fst (reconcile clk w c key))"
| refreshed: "ctrl_step clk c (Refresh w) (refreshGauges w c)"

inductive_cases ctrl_step_cases: "ctrl_step clk c e c'"

definition started :: "Controller \<Rightarrow> bool" where
  "started c \<longleftrightarrow> (\<exists>opts sink resend counters m. c = New opts (NewDeduper sink resend counters) m)"

abbreviation ctrl_reachable :: "(nat \<Rightarrow> time) \<Rightarrow> Controller \<Rightarrow> bool" where
  "ctrl_reachable clk \<equiv> reachable started (ctrl_step clk)"

lemma New_inv: "ctrl_inv (New opts (NewDeduper sink resend counters) m)"
  by (simp add: ctrl_inv_def tables_ok_def trackedKeys_def activeOf_def New_def NewDeduper_def Let_def
      fun_eq_iff)

lemma emit_inv [simp]: "ctrl_inv (emit c calls) = ctrl_inv c"
  by (simp add: emit_def)

lemma refreshGauges_inv: "ctrl_inv c \<Longrightarrow> ctrl_inv (refreshGauges w c)"
  by (simp add: refreshGauges_def Let_def split: option.split)

interpretation ctrl: invariant_of started "ctrl_step clk" ctrl_inv for clk
proof unfold_locales
  fix c e c'
  show "started c \<Longrightarrow> ctrl_inv c" by (auto simp: started_def New_inv)
  show "ctrl_inv c \<Longrightarrow> ctrl_step clk c e c' \<Longrightarrow> ctrl_inv c'"
    by (erule ctrl_step_cases) (simp_all add: reconcile_inv refreshGauges_inv)
qed

section \<open>Configuration\<close>

text \<open>
  C31.  Whatever the options, the controller starts with a positive clear grace period (at least
  90 seconds when it is derived from the resync period, even when doubling that period
  overflows) and with at least one worker.
\<close>

theorem New_defaults:
  "0 < sint (cClearGrace (New opts d m)) \<and> 0 < sint (oWorkers (cOpts (New opts d m))) \<and>
   (sint (oClearGracePeriod opts) \<le> 0 \<longrightarrow> sint (90 * Second) \<le> sint (cClearGrace (New opts d m)))"
proof -
  have "sint (90 * Second) = 90000000000" by (simp add: go_defs)
  then show ?thesis by (auto simp: New_def Let_def)
qed

theorem New_defaults_witness: "sint (90 * Second) \<le> sint (cClearGrace demoController)"
  using New_defaults [of demoOptions "NewDeduper fullSink (10 * Minute) (Some metricsCounters)" "\<lparr>ready = True\<rparr>"]
  by (simp add: demoController_def demoOptions_def)

section \<open>Reachable states\<close>

text \<open>
  C7.  No leak.  In every reachable state the deduper's records are exactly the alerts the
  controller tracks, and each tracked alert is filed under one object only; so the record of
  an alert is dropped when its alert clears and never outlives it.
\<close>

theorem dedup_records_exact:
  assumes "ctrl_reachable clk c"
  shows "dom (mget (dLastSeen (cDeduper c))) = {k. \<exists>obj. activeOf c obj k \<noteq> None} \<and>
     (\<forall>obj obj' k. activeOf c obj k \<noteq> None \<and> activeOf c obj' k \<noteq> None \<longrightarrow> obj = obj')"
proof -
  have inv: "ctrl_inv c" using assms by (rule ctrl.holds_reachable)
  then have "dom (mget (dLastSeen (cDeduper c))) = {k. \<exists>obj. activeOf c obj k \<noteq> None}"
    by (simp only: ctrl_inv_def trackedKeys_def)
  then show ?thesis using one_owner [OF inv] by blast
qed

definition demoWorld :: "Pod getResult \<Rightarrow> world" where
  "demoWorld r = \<lparr>wIsPrint = (\<lambda>_. True),
     wPodGet = (\<lambda>ns nm. if ns = ''default'' \<and> nm = ''crash'' then r else NotFound),
     wNodeGet = (\<lambda>_. NotFound), wPodList = Some 1, wNodeList = None\<rparr>"

definition demoKey :: queueKey where
  "demoKey = \<lparr>qkKind = ''Pod'', qkNamespace = ''default'', qkName = ''crash''\<rparr>"

definition demoRun :: Controller where
  "demoRun = fst (reconcile demoClock (demoWorld (Found demoPod)) demoController demoKey)"

lemma demo_ok [simp]:
  "wf_key demoKey" "lister_ok (demoWorld (Found demoPod))" "lister_ok (demoWorld NotFound)"
  by (auto simp: wf_key_def demoKey_def plain_def lister_ok_def demoWorld_def demoPod_def split: if_splits)

lemma demo_reachable: "ctrl_reachable demoClock demoController" "ctrl_reachable demoClock demoRun"
proof -
  show 0: "ctrl_reachable demoClock demoController"
    unfolding demoController_def started_def by (rule reachable.initial) blast
  show "ctrl_reachable demoClock demoRun"
    unfolding demoRun_def by (rule reachable.advance [OF 0]) (rule ctrl_step.reconciled; simp)
qed

theorem dedup_records_exact_witness:
  "dom (mget (dLastSeen (cDeduper demoRun))) = {k. \<exists>obj. activeOf demoRun obj k \<noteq> None}"
  using dedup_records_exact [OF demo_reachable(2)] by blast

section \<open>Deletion and errors\<close>

definition gone :: "world \<Rightarrow> queueKey \<Rightarrow> bool" where
  "gone w key \<longleftrightarrow> qkKind key = ''Pod'' \<and> wPodGet w (qkNamespace key) (qkName key) = NotFound \<or>
     qkKind key = ''Node'' \<and> wNodeGet w (qkName key) = NotFound"

lemma viewOf_gone: "viewOf clk w c key = VGone \<longleftrightarrow> gone w key"
  by (auto simp: viewOf_def gone_def Let_def split: getResult.splits)

text \<open>
  C12.  When the object is gone, the reconcile succeeds and removes every trace of it: no
  alert stays tracked, the deduper forgets each of its alerts, and for a Pod the restart
  history of its containers is dropped.
\<close>

theorem deleted_object_cleared:
  assumes "ctrl_reachable clk c" "gone w key"
  shows "snd (reconcile clk w c key) = None \<and>
     (\<forall>k. activeOf (fst (reconcile clk w c key)) (objectKey key) k = None) \<and>
     (\<forall>k. activeOf c (objectKey key) k \<noteq> None \<longrightarrow>
        mget (dLastSeen (cDeduper (fst (reconcile clk w c key)))) k = None) \<and>
     (qkKind key = ''Pod'' \<longrightarrow>
        (\<forall>ct. mget (rtSeen (cTracker (fst (reconcile clk w c key))))
           (containerKey (qkNamespace key) (qkName key) ct) = None))"
proof -
  have view: "viewOf clk w c key = VGone" using assms(2) by (simp add: viewOf_gone)
  let ?c = "clearObject (tick c) (objectKey key)"
  have act: "activeOf ?c (objectKey key) k = None" for k
    by (simp add: activeOf_statesOf statesOf_clearObject)
  have seen: "mget (dLastSeen (cDeduper ?c)) k = None" if "activeOf c (objectKey key) k \<noteq> None" for k
  proof -
    have "k \<in> set (mkeys (statesOf (tick c) (objectKey key)))"
      using that by (auto simp: gm.set_keys activeOf_statesOf tick_def)
    then show ?thesis by (simp add: clearObject_eq pipeRun_forgets dd.get_fold_del)
  qed
  have match: "podContainerKeyMatchesPod (containerKey ns nm ct) (ns @ ''/'' @ nm)" for ns nm ct
    by (auto simp: podContainerKeyMatchesPod_def containerKey_def hasPrefix_iff)
  show ?thesis
    using act seen match by (simp add: reconcile_view view forgetPod_seen activeOf_def)
qed

theorem deleted_object_cleared_witness:
  "snd (reconcile demoClock (demoWorld NotFound) demoRun demoKey) = None \<and>
   activeOf (fst (reconcile demoClock (demoWorld NotFound) demoRun demoKey)) (objectKey demoKey)
     ''CrashLoopBackOff|Pod|default/crash|app'' = None"
  using deleted_object_cleared [OF demo_reachable(2), of "demoWorld NotFound" demoKey]
  by (simp add: gone_def demoWorld_def demoKey_def)

text \<open>Why a reconcile has to fail: the lister reports an error, or nothing of that kind exists.\<close>

definition lookupError :: "world \<Rightarrow> queueKey \<Rightarrow> string option" where
  "lookupError w key =
     (if qkKind key = ''Pod'' then
        (case wPodGet w (qkNamespace key) (qkName key) of GetErr e \<Rightarrow> Some e | _ \<Rightarrow> None)
      else if qkKind key = ''Node'' then (case wNodeGet w (qkName key) of GetErr e \<Rightarrow> Some e | _ \<Rightarrow> None)
      else Some (''watcher: unknown kind '' @ quote (wIsPrint w) (qkKind key)))"

text \<open>
  C20.  A lister error other than not-found, and a key of an unknown kind, are returned to the
  caller as they are, and nothing else makes a reconcile fail.  A failing reconcile changes
  nothing: no alert fires, clears or ages, no record is dropped and no restart is counted; all
  it does is read the clock once when the kind is known.
\<close>

theorem failed_reconcile_changes_nothing:
  "snd (reconcile clk w c key) = lookupError w key \<and>
   (lookupError w key \<noteq> None \<longrightarrow>
      fst (reconcile clk w c key) = (if known key then c\<lparr>cTicks := Suc (cTicks c)\<rparr> else c))"
proof -
  have "lookupError w key = (case viewOf clk w c key of VFailed e \<Rightarrow> Some e | _ \<Rightarrow> None)"
    by (auto simp: lookupError_def viewOf_def Let_def split: getResult.split)
  then show ?thesis by (cases "viewOf clk w c key") (simp_all add: reconcile_view tick_def)
qed

theorem failed_reconcile_changes_nothing_witness:
  "snd (reconcile demoClock (demoWorld (GetErr ''timeout'')) demoRun demoKey) = Some ''timeout'' \<and>
   cActive (fst (reconcile demoClock (demoWorld (GetErr ''timeout'')) demoRun demoKey)) = cActive demoRun"
proof -
  have "lookupError (demoWorld (GetErr ''timeout'')) demoKey = Some ''timeout''"
    by (simp add: lookupError_def demoWorld_def demoKey_def)
  then show ?thesis
    using failed_reconcile_changes_nothing [of demoClock "demoWorld (GetErr ''timeout'')" demoRun demoKey] by auto
qed

section \<open>Histories of reconciles\<close>

type_synonym item = "world \<times> queueKey"

fun ctrlRun :: "(nat \<Rightarrow> time) \<Rightarrow> Controller \<Rightarrow> item list \<Rightarrow> Controller" where
  "ctrlRun clk c [] = c"
| "ctrlRun clk c ((w, key) # items) = ctrlRun clk (fst (reconcile clk w c key)) items"

text \<open>The deduper's view of one reconcile, and of a whole history.\<close>

definition reconcileOps :: "(nat \<Rightarrow> time) \<Rightarrow> world \<Rightarrow> Controller \<Rightarrow> queueKey \<Rightarrow> pipe_op list" where
  "reconcileOps clk w c key =
     (case viewOf clk w c key of
        VGone \<Rightarrow> map ForgetOp (mkeys (statesOf c (objectKey key)))
      | VFailed e \<Rightarrow> []
      | VAlerts alerts tr \<Rightarrow> deliverOps clk (tick c) (objectKey key) alerts)"

fun runOps :: "(nat \<Rightarrow> time) \<Rightarrow> Controller \<Rightarrow> item list \<Rightarrow> pipe_op list" where
  "runOps clk c [] = []"
| "runOps clk c ((w, key) # items) =
     reconcileOps clk w c key @ runOps clk (fst (reconcile clk w c key)) items"

lemma deliverOps_tracker [simp, frame]: "deliverOps clk (c\<lparr>cTracker := tr\<rparr>) = deliverOps clk c"
  by (simp add: deliverOps_def fun_eq_iff)

lemma reconcile_pipe:
  "cDeduper (fst (reconcile clk w c key)) = fst (pipeRun (cDeduper c) (reconcileOps clk w c key))"
  "cOut (fst (reconcile clk w c key)) = cOut c @ snd (pipeRun (cDeduper c) (reconcileOps clk w c key))"
proof -
  have tk: "cDeduper (tick c) = cDeduper c" "cOut (tick c) = cOut c" "statesOf (tick c) = statesOf c"
    by (simp_all add: tick_def)
  show "cDeduper (fst (reconcile clk w c key)) = fst (pipeRun (cDeduper c) (reconcileOps clk w c key))"
    "cOut (fst (reconcile clk w c key)) = cOut c @ snd (pipeRun (cDeduper c) (reconcileOps clk w c key))"
    by (cases "viewOf clk w c key"; simp add: reconcile_view reconcileOps_def tk clearObject_eq pipeRun_forgets)+
qed

lemma runOps_pipe:
  "cDeduper (ctrlRun clk c items) = fst (pipeRun (cDeduper c) (runOps clk c items))"
  "cOut (ctrlRun clk c items) = cOut c @ snd (pipeRun (cDeduper c) (runOps clk c items))"
  by (induction clk c items rule: ctrlRun.induct) (simp_all add: reconcile_pipe pipeRun_append)

lemma reconcile_frame [simp, frame]:
  "cClearGrace (fst (reconcile clk w c key)) = cClearGrace c" "cOpts (fst (reconcile clk w c key)) = cOpts c"
  by (cases "viewOf clk w c key"; simp add: reconcile_view tick_def clearObject_eq)+

lemma reconcile_ticks: "cTicks c \<le> cTicks (fst (reconcile clk w c key))"
  by (cases "viewOf clk w c key") (auto simp: reconcile_view tick_def clearObject_eq)

lemma ctrlRun_ticks: "cTicks c \<le> cTicks (ctrlRun clk c items)"
  by (induction clk c items rule: ctrlRun.induct) (auto intro: order_trans [OF reconcile_ticks])

lemma controller_deliveries_spaced:
  assumes "ForgetOp k \<notin> set (runOps clk c items)"
  shows "spaced (dResend (cDeduper c)) (deliveryTimes k (cDeduper c) (runOps clk c items))"
proof -
  have "spaced (dResend (cDeduper c)) (pass_times offerAlert DeduperForget Key k (cDeduper c) (map rl_of (runOps clk c items)))"
  proof (rule dd.pass_times_spaced, rule ballI)
    fix op assume "op \<in> set (map rl_of (runOps clk c items))"
    then obtain p where "p \<in> set (runOps clk c items)" "op = rl_of p" by auto
    with assms show "\<not> drops k op" by (cases p) auto
  qed
  then show ?thesis by (simp add: deliveryTimes_pass_times)
qed

lemma fireOps_no_forget: "ForgetOp k \<notin> set (fireOps clk n alerts)"
  by (induction alerts arbitrary: n) auto

lemma forget_cause:
  assumes "tables_ok c" "ForgetOp k \<in> set (reconcileOps clk w c key)"
  shows "activeOf c (objectKey key) k \<noteq> None \<and>
    (gone w key \<or>
     (\<exists>alerts tr st. viewOf clk w c key = VAlerts alerts tr \<and> k \<notin> Key ` set alerts \<and>
        activeOf c (objectKey key) k = Some st \<and> expired (cClearGrace c) (clk (Suc (cTicks c))) st))"
proof (cases "viewOf clk w c key")
  case VGone
  then show ?thesis
    using assms(2) viewOf_gone [of clk w c key]
    by (auto simp: reconcileOps_def gm.set_keys activeOf_statesOf)
next
  case (VFailed e)
  with assms(2) show ?thesis by (simp add: reconcileOps_def)
next
  case (VAlerts alerts tr)
  have "k \<in> set (droppedKeys (cClearGrace c) (clk (Suc (cTicks c))) alerts (statesOf c (objectKey key)))"
    using assms(2) VAlerts by (auto simp: reconcileOps_def deliverOps_def fireOps_no_forget tick_def)
  then show ?thesis
    using set_droppedKeys [OF tables_ok_states [OF assms(1)]] VAlerts by (auto simp: activeOf_statesOf)
qed

section \<open>Flapping\<close>

definition wf_item :: "item \<Rightarrow> bool" where
  "wf_item it \<longleftrightarrow> wf_key (snd it) \<and> lister_ok (fst it)"

text \<open>The reconcile finds the object and reports the alert \<open>k\<close> for it.\<close>

definition presents :: "(nat \<Rightarrow> time) \<Rightarrow> world \<Rightarrow> Controller \<Rightarrow> queueKey \<Rightarrow> string \<Rightarrow> bool" where
  "presents clk w c key k \<longleftrightarrow> (\<exists>alerts tr. viewOf clk w c key = VAlerts alerts tr \<and> k \<in> Key ` set alerts)"

text \<open>A stretch of history in which no reconcile of \<open>obj\<close> reports \<open>k\<close>; and one that begins with
  a successful reconcile of \<open>obj\<close>.\<close>

fun quiet :: "(nat \<Rightarrow> time) \<Rightarrow> Controller \<Rightarrow> string \<Rightarrow> string \<Rightarrow> item list \<Rightarrow> bool" where
  "quiet clk c obj k [] = True"
| "quiet clk c obj k ((w, key) # items) =
     (\<not> (objectKey key = obj \<and> presents clk w c key k) \<and> quiet clk (fst (reconcile clk w c key)) obj k items)"

definition quietFrom :: "(nat \<Rightarrow> time) \<Rightarrow> Controller \<Rightarrow> string \<Rightarrow> string \<Rightarrow> item list \<Rightarrow> bool" where
  "quietFrom clk c obj k items \<longleftrightarrow> quiet clk c obj k items \<and>
     (\<exists>w key ys alerts tr. items = (w, key) # ys \<and> objectKey key = obj \<and> viewOf clk w c key = VAlerts alerts tr)"

lemma gone_clears: "gone w key \<Longrightarrow> activeOf (fst (reconcile clk w c key)) (objectKey key) k = None"
proof -
  assume "gone w key"
  then have "viewOf clk w c key = VGone" by (simp add: viewOf_gone)
  then show ?thesis by (simp add: reconcile_view activeOf_def clearObject_eq)
qed

lemma activeOf_reconcile:
  assumes "tables_ok c" "\<not> (gone w key \<and> objectKey key = obj)"
  shows "activeOf (fst (reconcile clk w c key)) obj k =
     (case viewOf clk w c key of
        VAlerts alerts tr \<Rightarrow>
          (if objectKey key = obj
           then nextState (cClearGrace c) (clk (Suc (cTicks c))) (k \<in> Key ` set alerts) (activeOf c obj k)
           else activeOf c obj k)
      | _ \<Rightarrow> activeOf c obj k)"
proof (cases "viewOf clk w c key")
  case VGone
  then have "objectKey key \<noteq> obj" using assms(2) by (auto simp: viewOf_gone)
  with VGone show ?thesis
    by (simp add: reconcile_view activeOf_statesOf statesOf_clearObject tick_def)
next
  case (VFailed e)
  then show ?thesis by (simp add: reconcile_view activeOf_def tick_def)
next
  case (VAlerts alerts tr)
  have t: "tables_ok ((tick c)\<lparr>cTracker := tr\<rparr>)"
    using assms(1) by (simp add: tables_ok_def tick_def)
  have a: "activeOf ((tick c)\<lparr>cTracker := tr\<rparr>) = activeOf c"
    by (simp add: fun_eq_iff activeOf_def tick_def)
  show ?thesis
    using VAlerts by (auto simp: reconcile_view activeOf_deliver [OF t] a) (simp_all add: tick_def)
qed

lemma fireOps_mem:
  "a \<in> set alerts \<Longrightarrow> \<exists>i. FireOp (clk i) a \<in> set (fireOps clk n alerts) \<and> n \<le> i \<and> i < n + length alerts"
proof (induction alerts arbitrary: n)
  case (Cons b alerts)
  show ?case
  proof (cases "a = b")
    case True
    then show ?thesis by (intro exI [of _ n]) simp
  next
    case False
    with Cons obtain i where "FireOp (clk i) a \<in> set (fireOps clk (Suc n) alerts)" "Suc n \<le> i" "i < Suc n + length alerts"
      by force
    then show ?thesis by (intro exI [of _ i]) simp
  qed
qed simp

lemma runOps_append: "runOps clk c (xs @ ys) = runOps clk c xs @ runOps clk (ctrlRun clk c xs) ys"
  by (induction clk c xs rule: ctrlRun.induct) auto

lemma ctrlRun_append: "ctrlRun clk c (xs @ ys) = ctrlRun clk (ctrlRun clk c xs) ys"
  by (induction clk c xs rule: ctrlRun.induct) auto

lemma ctrlRun_inv: "ctrl_inv c \<Longrightarrow> list_all wf_item items \<Longrightarrow> ctrl_inv (ctrlRun clk c items)"
  by (induction clk c items rule: ctrlRun.induct) (auto simp: wf_item_def reconcile_inv)

lemma ctrlRun_grace [simp, frame]: "cClearGrace (ctrlRun clk c items) = cClearGrace c"
  by (induction clk c items rule: ctrlRun.induct) simp_all

lemma quiet_append:
  "quiet clk c obj k (xs @ ys) \<longleftrightarrow> quiet clk c obj k xs \<and> quiet clk (ctrlRun clk c xs) obj k ys"
  by (induction clk c obj k xs rule: quiet.induct) auto

text \<open>A tracked alert that is clearing after a reconcile was clearing before, or began to just now.\<close>

lemma clearing_step:
  assumes "tables_ok c" "activeOf (fst (reconcile clk w c key)) obj k = Some st" "\<not> isFiring st"
  shows "\<not> (objectKey key = obj \<and> presents clk w c key k) \<and>
     (activeOf c obj k = Some st \<or>
      objectKey key = obj \<and> (\<exists>alerts tr. viewOf clk w c key = VAlerts alerts tr) \<and>
        clearingSince st = clk (Suc (cTicks c)))"
proof -
  have live: "\<not> (gone w key \<and> objectKey key = obj)"
    using assms(2) by (auto simp: gone_clears)
  note after = assms(2) [unfolded activeOf_reconcile [OF assms(1) live]]
  show ?thesis
  proof (cases "\<exists>alerts tr. viewOf clk w c key = VAlerts alerts tr \<and> objectKey key = obj")
    case False
    with after have "activeOf c obj k = Some st" by (auto split: view.splits)
    with False show ?thesis by (auto simp: presents_def)
  next
    case True
    then obtain alerts tr where v: "viewOf clk w c key = VAlerts alerts tr" "objectKey key = obj" by blast
    then have "nextState (cClearGrace c) (clk (Suc (cTicks c))) (k \<in> Key ` set alerts) (activeOf c obj k) = Some st"
      using after by simp
    with assms(3) have "k \<notin> Key ` set alerts"
      "activeOf c obj k = Some st \<or> clearingSince st = clk (Suc (cTicks c))"
      by (auto simp: nextState_def isFiring_def firingState_def zeroTime_def timeIsZero_def
          split: option.splits if_splits)
    then show ?thesis using v by (auto simp: presents_def)
  qed
qed

text \<open>A tracked alert that is clearing has been absent since the reading it carries.\<close>

lemma clearing_quiet:
  assumes inv: "ctrl_inv c" and start: "\<forall>st. activeOf c obj k = Some st \<longrightarrow> isFiring st"
    and "list_all wf_item items" "activeOf (ctrlRun clk c items) obj k = Some st" "\<not> isFiring st"
  shows "\<exists>xs ys. items = xs @ ys \<and> quietFrom clk (ctrlRun clk c xs) obj k ys \<and>
     clearingSince st = clk (Suc (cTicks (ctrlRun clk c xs)))"
  using assms(3-5)
proof (induction items arbitrary: st rule: rev_induct)
  case Nil
  then show ?case using start by simp
next
  case (snoc it items)
  obtain w key where it: "it = (w, key)" by (cases it)
  let ?c = "ctrlRun clk c items"
  have "tables_ok ?c"
    using ctrlRun_inv [OF inv] snoc.prems(1) by (simp add: ctrl_inv_def)
  note step = clearing_step [OF this _ snoc.prems(3), of clk w key obj k]
  have now: "activeOf (fst (reconcile clk w ?c key)) obj k = Some st"
    using snoc.prems(2) by (simp add: it ctrlRun_append)
  show ?case
  proof (cases "activeOf ?c obj k = Some st")
    case True
    then obtain xs ys where "items = xs @ ys" "quietFrom clk (ctrlRun clk c xs) obj k ys"
      "clearingSince st = clk (Suc (cTicks (ctrlRun clk c xs)))"
      using snoc.IH [OF _ True snoc.prems(3)] snoc.prems(1) by auto
    then show ?thesis using step [OF now]
      by (intro exI [of _ xs] exI [of _ "ys @ [it]"]) (auto simp: quietFrom_def quiet_append it ctrlRun_append)
  next
    case False
    then show ?thesis using step [OF now]
      by (intro exI [of _ items] exI [of _ "[it]"]) (auto simp: quietFrom_def it)
  qed
qed

lemma forget_reasons:
  assumes "c = ctrlRun clk (New opts (NewDeduper sink resend counters) m) items"
    and "list_all wf_item items" "ForgetOp k \<in> set (reconcileOps clk w c key)"
  shows "activeOf c (objectKey key) k \<noteq> None \<and> (gone w key \<or>
     (\<not> presents clk w c key k \<and>
      (\<exists>xs ys c0. items = xs @ ys \<and> c0 = ctrlRun clk (New opts (NewDeduper sink resend counters) m) xs \<and>
         quietFrom clk c0 (objectKey key) k ys \<and>
         sint (cClearGrace c) \<le> sint (timeSub (clk (Suc (cTicks c))) (clk (Suc (cTicks c0)))))))"
proof -
  let ?n = "New opts (NewDeduper sink resend counters) m"
  have "tables_ok c"
    using ctrlRun_inv [OF New_inv assms(2)] assms(1) by (simp add: ctrl_inv_def)
  note cause = forget_cause [OF this assms(3)]
  have empty: "\<forall>st. activeOf ?n (objectKey key) k = Some st \<longrightarrow> isFiring st"
    by (simp add: activeOf_def New_def Let_def)
  show ?thesis
  proof (cases "gone w key")
    case False
    then obtain alerts tr st where v: "viewOf clk w c key = VAlerts alerts tr" "k \<notin> Key ` set alerts"
      and st: "activeOf c (objectKey key) k = Some st" "expired (cClearGrace c) (clk (Suc (cTicks c))) st"
      using cause by blast
    have "\<not> isFiring st" using st(2) by (simp add: expired_def)
    then obtain xs ys where "items = xs @ ys" "quietFrom clk (ctrlRun clk ?n xs) (objectKey key) k ys"
      "clearingSince st = clk (Suc (cTicks (ctrlRun clk ?n xs)))"
      using clearing_quiet [OF New_inv empty assms(2)] st(1) assms(1) by blast
    then show ?thesis using v st by (auto simp: presents_def expired_def)
  qed (use cause in simp)
qed

lemma forget_needed:
  "mget (dLastSeen d) k \<noteq> None \<Longrightarrow> mget (dLastSeen (fst (pipeRun d ops))) k = None \<Longrightarrow> ForgetOp k \<in> set ops"
proof (induction k d ops rule: deliveryTimes.induct)
  case (2 k d now a ops)
  have "mget (dLastSeen (fst (DeduperFire d now a))) k \<noteq> None"
    using 2(2) fire_lastSeen_dom [of d now a] by blast
  with 2 show ?case by (simp add: case_prod_beta)
next
  case (3 k d k' ops)
  then show ?case by (cases "k = k'") auto
qed simp

lemma untracked_forgotten:
  assumes "ctrl_inv c" "owns obj k" "activeOf c obj k = None"
  shows "mget (dLastSeen (cDeduper c)) k = None"
proof (rule ccontr)
  assume "mget (dLastSeen (cDeduper c)) k \<noteq> None"
  then have "k \<in> trackedKeys c" using assms(1) unfolding ctrl_inv_def by blast
  then obtain obj' where obj': "activeOf c obj' k \<noteq> None" by (auto simp: trackedKeys_def)
  then have "owns obj' k" using assms(1) by (simp add: ctrl_inv_def)
  then have "obj' = obj" using assms(2) by (rule owns_unique)
  with obj' assms(3) show False by simp
qed

text \<open>
  C6.  Flap suppression.  However a history of reconciles goes, a reconcile that drops a tracked
  alert, from the table of active alerts or from the deduper's records, is a reconcile of the
  alert's own object, and there are two reasons only: the object is gone, or the history
  ends with a stretch that begins with a reconcile of the object without the alert, in which no
  reconcile of the object shows the alert, and which lasted at least the grace period.  A
  condition that disappears for less than the grace period is not treated as new.
\<close>

theorem forget_only_after_grace:
  assumes "c = ctrlRun clk (New opts (NewDeduper sink resend counters) m) items"
    and "list_all wf_item items" "wf_item (w, key)" "activeOf c obj k \<noteq> None"
    and "activeOf (fst (reconcile clk w c key)) obj k = None \<or>
      mget (dLastSeen (cDeduper (fst (reconcile clk w c key)))) k = None"
  shows "obj = objectKey key \<and> (gone w key \<or>
     (\<not> presents clk w c key k \<and>
      (\<exists>xs ys c0. items = xs @ ys \<and> c0 = ctrlRun clk (New opts (NewDeduper sink resend counters) m) xs \<and>
         quietFrom clk c0 (objectKey key) k ys \<and>
         sint (cClearGrace c) \<le> sint (timeSub (clk (Suc (cTicks c))) (clk (Suc (cTicks c0)))))))"
proof -
  have inv: "ctrl_inv c" using ctrlRun_inv [OF New_inv assms(2)] by (simp add: assms(1))
  then have inv': "ctrl_inv (fst (reconcile clk w c key))"
    using reconcile_inv assms(3) by (simp add: wf_item_def)
  have own: "owns obj k" using inv assms(4) by (simp add: ctrl_inv_def)
  have "k \<in> trackedKeys c" using assms(4) unfolding trackedKeys_def by blast
  then have "mget (dLastSeen (cDeduper c)) k \<noteq> None" using inv unfolding ctrl_inv_def by blast
  moreover have "mget (dLastSeen (cDeduper (fst (reconcile clk w c key)))) k = None"
    using assms(5) untracked_forgotten [OF inv' own] by blast
  ultimately have "ForgetOp k \<in> set (reconcileOps clk w c key)"
    by (intro forget_needed [of "cDeduper c"]) (simp_all add: reconcile_pipe(1))
  note reasons = forget_reasons [OF assms(1,2) this]
  have "objectKey key = obj" by (rule one_owner [OF inv assms(4) conjunct1 [OF reasons]])
  then show ?thesis using reasons by blast
qed

text \<open>Concrete histories: a crash-looping Pod that recovers, under a clock that advances 100
  seconds at every reading, and under a clock that stands still.\<close>

definition healthyPod :: Pod where
  "healthyPod = demoPod\<lparr>podContainerStatuses := []\<rparr>"

definition slowClock :: "nat \<Rightarrow> time" where
  "slowClock i = clockAt (100 * int i)"

abbreviation crashKey :: string where
  "crashKey \<equiv> ''CrashLoopBackOff|Pod|default/crash|app''"

lemma demo_crash:
  "crashKey \<in> Key ` set (EvaluatePod (\<lambda>_. True) (Some demoPod) th now)"
    by (simp add: EvaluatePod_def demoPod_def demoContainer_def evalContainer_def oomTermination_def podBase_def
        emptyAlert_def Let_def Key_def const_defs)

lemma demo_views:
  "\<exists>alerts tr. viewOf clk (demoWorld (Found demoPod)) demoController demoKey = VAlerts alerts tr \<and>
     crashKey \<in> Key ` set alerts"
  "\<exists>tr. viewOf clk (demoWorld (Found healthyPod)) c demoKey = VAlerts [] tr"
proof -
  show "\<exists>alerts tr. viewOf clk (demoWorld (Found demoPod)) demoController demoKey = VAlerts alerts tr \<and>
     crashKey \<in> Key ` set alerts"
    using demo_crash by (simp add: viewOf_def demoWorld_def demoKey_def Let_def image_Un)
  have "EvaluatePod (\<lambda>_. True) (Some healthyPod) th now = []" for th now
    by (simp add: EvaluatePod_def healthyPod_def demoPod_def Let_def const_defs)
  then show "\<exists>tr. viewOf clk (demoWorld (Found healthyPod)) c demoKey = VAlerts [] tr"
    by (simp add: viewOf_def demoWorld_def demoKey_def rapidRestartAlerts_def healthyPod_def Let_def)
qed

lemma healthy_ticks:
  "cTicks (fst (reconcile clk (demoWorld (Found healthyPod)) c demoKey)) = cTicks c + 2"
  using demo_views(2) [of clk c] by (auto simp: reconcile_view tick_def)

theorem forget_only_after_grace_witness:
  "\<exists>c. activeOf c (objectKey demoKey) crashKey \<noteq> None \<and>
     activeOf (fst (reconcile slowClock (demoWorld (Found healthyPod)) c demoKey)) (objectKey demoKey) crashKey = None \<and>
     \<not> presents slowClock (demoWorld (Found healthyPod)) c demoKey crashKey"
proof -
  let ?items = "[(demoWorld (Found demoPod), demoKey), (demoWorld (Found healthyPod), demoKey)]"
  let ?c1 = "fst (reconcile slowClock (demoWorld (Found demoPod)) demoController demoKey)"
  let ?c2 = "fst (reconcile slowClock (demoWorld (Found healthyPod)) ?c1 demoKey)"
  let ?new = "New demoOptions (NewDeduper fullSink (10 * Minute) (Some metricsCounters)) \<lparr>ready = True\<rparr>"
  have wf: "list_all wf_item ?items"
    by (auto simp: wf_item_def wf_key_def demoKey_def plain_def lister_ok_def demoWorld_def demoPod_def
        healthyPod_def split: if_splits)
  have live: "\<not> (gone (demoWorld (Found p)) demoKey \<and> objectKey demoKey = objectKey demoKey)" for p
    by (simp add: gone_def demoWorld_def demoKey_def)
  have run: "?c2 = ctrlRun slowClock ?new ?items"
    by (simp add: demoController_def)
  have ok: "tables_ok demoController" "tables_ok ?c1" "tables_ok ?c2"
    using demoController_ok ctrlRun_inv [OF New_inv wf, of slowClock demoOptions fullSink "10 * Minute"]
      ctrlRun_inv [OF New_inv, of "[(demoWorld (Found demoPod), demoKey)]" slowClock demoOptions fullSink "10 * Minute"] wf
    by (auto simp: demoController_def ctrl_inv_def)
  have first: "activeOf ?c1 (objectKey demoKey) crashKey = Some firingState"
    using demo_views(1) [of slowClock] unfolding activeOf_reconcile [OF ok(1) live]
    by (auto simp: nextState_def)
  have second: "activeOf ?c2 (objectKey demoKey) crashKey = Some \<lparr>clearingSince = slowClock (Suc (cTicks ?c1))\<rparr>"
    using demo_views(2) [of slowClock ?c1] first unfolding activeOf_reconcile [OF ok(2) live]
    by (auto simp: nextState_def isFiring_def firingState_def zeroTime_def timeIsZero_def)
  have ticks: "cTicks ?c2 = cTicks ?c1 + 2" by (rule healthy_ticks)
  have old: "expired (cClearGrace ?c2) (slowClock (Suc (cTicks ?c2))) \<lparr>clearingSince = slowClock (Suc (cTicks ?c1))\<rparr>"
    unfolding ticks by (simp add: expired_def isFiring_def slowClock_def clockAt_def timeIsZero_def timeSub_def
        sint_sat64 demoController_def New_def Let_def demoOptions_def go_defs)
  have third: "activeOf (fst (reconcile slowClock (demoWorld (Found healthyPod)) ?c2 demoKey)) (objectKey demoKey) crashKey = None"
    using demo_views(2) [of slowClock ?c2] second old unfolding activeOf_reconcile [OF ok(3) live]
    by (auto simp: nextState_def expired_def)
  have here: "activeOf ?c2 (objectKey demoKey) crashKey \<noteq> None" using second by simp
  have "wf_item (demoWorld (Found healthyPod), demoKey)" using wf by simp
  from forget_only_after_grace [OF run wf this here] third show ?thesis using live here by blast
qed

lemma runOps_forget_split:
  assumes "ForgetOp k \<in> set (runOps clk c items)"
  shows "\<exists>xs w key ys. items = xs @ (w, key) # ys \<and> ForgetOp k \<in> set (reconcileOps clk w (ctrlRun clk c xs) key)"
  using assms
proof (induction clk c items rule: runOps.induct)
  case (2 clk c w key items)
  show ?case
  proof (cases "ForgetOp k \<in> set (reconcileOps clk w c key)")
    case True
    then show ?thesis by (intro exI [of _ "[]"]) auto
  next
    case False
    then obtain xs w' key' ys where "items = xs @ (w', key') # ys"
      "ForgetOp k \<in> set (reconcileOps clk w' (ctrlRun clk (fst (reconcile clk w c key)) xs) key')"
      using 2 by auto
    then show ?thesis by (intro exI [of _ "(w, key) # xs"]) auto
  qed
qed simp

text \<open>
  A history in which an alert of the object \<open>obj\<close> is never resolved: the object is never found
  deleted, and whenever a reconcile of it does not show the alert, the stretch without the
  alert has lasted less than the grace period.  Other objects may do anything.
\<close>

definition unresolved :: "(nat \<Rightarrow> time) \<Rightarrow> Controller \<Rightarrow> string \<Rightarrow> string \<Rightarrow> item list \<Rightarrow> bool" where
  "unresolved clk c obj k items \<longleftrightarrow>
     (\<forall>(w, key) \<in> set items. \<not> (gone w key \<and> objectKey key = obj)) \<and>
     (\<forall>xs ys w key zs. items = xs @ ys @ (w, key) # zs \<and> objectKey key = obj \<and>
        \<not> presents clk w (ctrlRun clk c (xs @ ys)) key k \<and> quietFrom clk (ctrlRun clk c xs) obj k ys \<longrightarrow>
        sint (timeSub (clk (Suc (cTicks (ctrlRun clk c (xs @ ys))))) (clk (Suc (cTicks (ctrlRun clk c xs)))))
          < sint (cClearGrace c))"

lemma unresolved_kept:
  assumes "c = New opts (NewDeduper sink resend counters) m" "list_all wf_item items"
    and "owns obj k" "unresolved clk c obj k items"
  shows "ForgetOp k \<notin> set (runOps clk c items)"
proof
  assume "ForgetOp k \<in> set (runOps clk c items)"
  then obtain xs w key ys where items: "items = xs @ (w, key) # ys"
    and forget: "ForgetOp k \<in> set (reconcileOps clk w (ctrlRun clk c xs) key)"
    using runOps_forget_split by blast
  have xs: "list_all wf_item xs" using assms(2) unfolding items by simp
  note reasons = forget_reasons [OF refl xs forget [unfolded assms(1)], folded assms(1)]
  have "ctrl_inv (ctrlRun clk c xs)" using ctrlRun_inv [OF New_inv xs] by (simp add: assms(1))
  then have "owns (objectKey key) k" using reasons by (auto simp: ctrl_inv_def)
  then have obj: "objectKey key = obj" using assms(3) by (rule owns_unique)
  then have "\<not> gone w key" using assms(4) unfolding items unresolved_def by auto
  then obtain us vs where "xs = us @ vs" "quietFrom clk (ctrlRun clk c us) (objectKey key) k vs"
    "\<not> presents clk w (ctrlRun clk c xs) key k"
    "sint (cClearGrace c) \<le> sint (timeSub (clk (Suc (cTicks (ctrlRun clk c xs)))) (clk (Suc (cTicks (ctrlRun clk c us)))))"
    using reasons by auto
  note stretch = this [unfolded obj]
  have "items = us @ vs @ (w, key) # ys" using items stretch(1) by simp
  with assms(4) obj stretch have "sint (timeSub (clk (Suc (cTicks (ctrlRun clk c xs)))) (clk (Suc (cTicks (ctrlRun clk c us)))))
      < sint (cClearGrace c)"
    unfolding unresolved_def by blast
  with stretch(4) show False by simp
qed

section \<open>What is reported, and when\<close>

text \<open>
  The calls one reconcile makes, and for a history the reconciles among whose calls some
  satisfy \<open>P\<close>, each given by the clock readings it takes: those from the first number up to, but
  not including, the second.
\<close>

definition newCalls :: "(nat \<Rightarrow> time) \<Rightarrow> world \<Rightarrow> Controller \<Rightarrow> queueKey \<Rightarrow> call list" where
  "newCalls clk w c key = drop (length (cOut c)) (cOut (fst (reconcile clk w c key)))"

fun reportWindows :: "(call \<Rightarrow> bool) \<Rightarrow> (nat \<Rightarrow> time) \<Rightarrow> Controller \<Rightarrow> item list \<Rightarrow> (nat \<times> nat) list" where
  "reportWindows P clk c [] = []"
| "reportWindows P clk c ((w, key) # items) =
     (let c' = fst (reconcile clk w c key)
      in (if list_ex P (newCalls clk w c key) then [(cTicks c, cTicks c')] else []) @ reportWindows P clk c' items)"

lemma reportWindows_append:
  "reportWindows P clk c (xs @ ys) = reportWindows P clk c xs @ reportWindows P clk (ctrlRun clk c xs) ys"
  by (induction P clk c xs rule: reportWindows.induct) (simp_all add: Let_def)

lemma newCalls_pipe: "newCalls clk w c key = snd (pipeRun (cDeduper c) (reconcileOps clk w c key))"
  by (simp add: newCalls_def reconcile_pipe(2))

lemma deliveryTimes_forgets: "deliveryTimes k d (map ForgetOp ks) = []"
  by (induction ks arbitrary: d) simp_all

lemma deliveryTimes_fireOps:
  "t \<in> set (deliveryTimes k d (fireOps clk n alerts)) \<Longrightarrow> \<exists>i \<in> {n..<n + length alerts}. t = clk i"
proof (induction alerts arbitrary: d n)
  case (Cons a alerts)
  show ?case
  proof (cases "t \<in> set (deliveryTimes k (fst (DeduperFire d (clk n) a)) (fireOps clk (Suc n) alerts))")
    case True
    from Cons.IH [OF this] show ?thesis by auto
  next
    case False
    with Cons.prems have "t = clk n" by (auto split: if_splits)
    then show ?thesis by (intro bexI [of _ n]) simp_all
  qed
qed simp

text \<open>A delivery happens at one of the clock readings of its reconcile.\<close>

lemma reconcile_window:
  assumes "t \<in> set (deliveryTimes k d (reconcileOps clk w c key))"
  shows "\<exists>i \<in> {cTicks c..<cTicks (fst (reconcile clk w c key))}. t = clk i"
proof (cases "viewOf clk w c key")
  case (VAlerts alerts tr)
  then have "t \<in> set (deliveryTimes k d (fireOps clk (Suc (Suc (cTicks c))) alerts))"
    using assms by (simp add: reconcileOps_def deliverOps_def tick_def deliveryTimes_append deliveryTimes_forgets)
  then obtain i where "i \<in> {Suc (Suc (cTicks c))..<Suc (Suc (cTicks c)) + length alerts}" "t = clk i"
    using deliveryTimes_fireOps by blast
  then show ?thesis using VAlerts by (intro bexI [of _ i]) (simp_all add: reconcile_view tick_def)
qed (use assms in \<open>simp_all add: reconcileOps_def deliveryTimes_forgets\<close>)

lemma reconcile_reveals:
  assumes "reveals P k (dNext (cDeduper c)) (dCounters (cDeduper c))"
  shows "reveals P k (dNext (cDeduper (fst (reconcile clk w c key)))) (dCounters (cDeduper (fst (reconcile clk w c key))))"
    "list_ex P (newCalls clk w c key) \<longleftrightarrow> deliveryTimes k (cDeduper c) (reconcileOps clk w c key) \<noteq> []"
  using assms by (simp_all add: newCalls_pipe pipeRun_reports reconcile_pipe(1))

lemma deliveryTimes_reconcile:
  "deliveryTimes k (cDeduper c) (runOps clk c ((w, key) # items)) =
     deliveryTimes k (cDeduper c) (reconcileOps clk w c key) @
     deliveryTimes k (cDeduper (fst (reconcile clk w c key))) (runOps clk (fst (reconcile clk w c key)) items)"
  by (simp add: deliveryTimes_append reconcile_pipe(1))

lemma windows_cover:
  assumes "reveals P k (dNext (cDeduper c)) (dCounters (cDeduper c))"
    and "t \<in> set (deliveryTimes k (cDeduper c) (runOps clk c items))"
  shows "\<exists>(a, b) \<in> set (reportWindows P clk c items). \<exists>i \<in> {a..<b}. t = clk i"
  using assms
proof (induction P clk c items rule: reportWindows.induct)
  case (2 P clk c w key items)
  note after = reconcile_reveals [OF 2(2), of clk w key]
  show ?case
  proof (cases "t \<in> set (deliveryTimes k (cDeduper c) (reconcileOps clk w c key))")
    case True
    then have "list_ex P (newCalls clk w c key)" by (auto simp: after(2))
    then show ?thesis using reconcile_window [OF True] by (simp add: Let_def)
  next
    case False
    then show ?thesis using 2(1) [OF refl after(1)] 2(3) unfolding deliveryTimes_reconcile by (auto simp: Let_def)
  qed
qed simp

lemma windows_head:
  assumes "reveals P k (dNext (cDeduper c)) (dCounters (cDeduper c))"
    and "reportWindows P clk c items = (a, b) # ws"
  shows "\<exists>j \<in> {a..<b}. \<exists>ts. deliveryTimes k (cDeduper c) (runOps clk c items) = clk j # ts"
  using assms
proof (induction P clk c items rule: reportWindows.induct)
  case (2 P clk c w key items)
  note after = reconcile_reveals [OF 2(2), of clk w key]
  show ?case
  proof (cases "deliveryTimes k (cDeduper c) (reconcileOps clk w c key)")
    case Nil
    then show ?thesis using 2(1) [OF refl after(1)] 2(3) after(2) unfolding deliveryTimes_reconcile by (simp add: Let_def)
  next
    case (Cons t ts)
    then have "a = cTicks c" "b = cTicks (fst (reconcile clk w c key))" using 2(3) after(2) by (simp_all add: Let_def)
    moreover obtain j where "j \<in> {cTicks c..<cTicks (fst (reconcile clk w c key))}" "t = clk j"
      using reconcile_window [of t k "cDeduper c" clk w c key] Cons by auto
    ultimately show ?thesis unfolding deliveryTimes_reconcile Cons by (intro bexI [of _ j]) auto
  qed
qed simp

definition apart :: "duration \<Rightarrow> (nat \<Rightarrow> time) \<Rightarrow> nat \<times> nat \<Rightarrow> nat \<times> nat \<Rightarrow> bool" where
  "apart gap clk v w \<longleftrightarrow>
     (\<exists>i \<in> {fst v..<snd v}. \<exists>j \<in> {fst w..<snd w}. sint gap \<le> sint (timeSub (clk j) (clk i)))"

lemma windows_apart:
  assumes "reveals P k (dNext (cDeduper c)) (dCounters (cDeduper c))"
    and "spaced gap (deliveryTimes k (cDeduper c) (runOps clk c items))"
  shows "successively (apart gap clk) (reportWindows P clk c items)"
  using assms
proof (induction P clk c items rule: reportWindows.induct)
  case (2 P clk c w key items)
  let ?c = "fst (reconcile clk w c key)"
  let ?s = "deliveryTimes k (cDeduper c) (reconcileOps clk w c key)"
  let ?r = "deliveryTimes k (cDeduper ?c) (runOps clk ?c items)"
  note after = reconcile_reveals [OF 2(2), of clk w key]
  have sp: "spaced gap (?s @ ?r)" using 2(3) unfolding deliveryTimes_reconcile .
  then have "spaced gap ?r" by (simp add: spaced_def successively_append_iff)
  note ih = 2(1) [OF refl after(1) this]
  show ?case
  proof (cases "?s = [] \<or> reportWindows P clk ?c items = []")
    case True
    then show ?thesis using ih after(2) by (auto simp: Let_def)
  next
    case False
    then obtain a b ws where ws: "reportWindows P clk ?c items = (a, b) # ws" by (metis list.exhaust surj_pair)
    obtain j ts where j: "j \<in> {a..<b}" "?r = clk j # ts" using windows_head [OF after(1) ws] by blast
    have "last ?s \<in> set ?s" using False by simp
    then obtain i where i: "i \<in> {cTicks c..<cTicks ?c}" "last ?s = clk i" using reconcile_window by blast
    have "sint gap \<le> sint (timeSub (clk j) (clk i))"
      using sp False j(2) i(2) by (simp add: spaced_def successively_append_iff)
    then have "apart gap clk (cTicks c, cTicks ?c) (a, b)" unfolding apart_def using i(1) j(1)
      by (intro bexI [of _ i] bexI [of _ j]) simp_all
    then show ?thesis using ih ws False after(2) by (simp add: Let_def)
  qed
qed simp


lemma demo_owns: "owns (objectKey demoKey) crashKey"
  unfolding owns_def by (intro exI [of _ demoKey] exI [of _ "''CrashLoopBackOff''"] exI [of _ "''app''"])
    (simp add: demoKey_def bar_free_def objectPart_def wf_key_def plain_def)


text \<open>
  C14.  A standing problem stays visible.  After any history of reconciles, whenever a reconcile
  shows an alert, some reconcile, this one or an earlier one, made the sink's calls for that alert
  less than the resend interval before: suppression and clearing never hide a problem
  that persists for longer than that.
\<close>

theorem standing_problem_reported:
  assumes "c = New opts (NewDeduper sink resend counters) m" "0 < sint resend" "reveals P k sink counters"
    and "presents clk w (ctrlRun clk c items) key k"
  shows "\<exists>(a, b) \<in> set (reportWindows P clk c (items @ [(w, key)])).
     \<exists>i \<in> {a..<b}. \<exists>j \<in> {cTicks (ctrlRun clk c items)..<cTicks (ctrlRun clk c (items @ [(w, key)]))}.
       sint (timeSub (clk j) (clk i)) < sint resend"
proof -
  let ?c = "ctrlRun clk c items"
  obtain alerts tr a where view: "viewOf clk w ?c key = VAlerts alerts tr" and a: "a \<in> set alerts" "k = Key a"
    using assms(4) by (auto simp: presents_def)
  have ticks: "cTicks (ctrlRun clk c (items @ [(w, key)])) = cTicks ?c + 2 + length alerts"
    using view by (simp add: ctrlRun_append reconcile_view tick_def)
  obtain j where j: "FireOp (clk j) a \<in> set (fireOps clk (Suc (Suc (cTicks ?c))) alerts)"
      "Suc (Suc (cTicks ?c)) \<le> j" "j < Suc (Suc (cTicks ?c)) + length alerts"
    using fireOps_mem [OF a(1)] by blast
  then have "FireOp (clk j) a \<in> set (runOps clk c (items @ [(w, key)]))"
    using view by (simp add: runOps_append reconcileOps_def deliverOps_def tick_def)
  moreover have d: "dLastSeen (cDeduper c) = []" "dResend (cDeduper c) = resend" "dNext (cDeduper c) = sink"
      "dCounters (cDeduper c) = counters"
    by (simp_all add: assms(1) New_def Let_def NewDeduper_def)
  ultimately obtain t where t: "t \<in> set (deliveryTimes k (cDeduper c) (runOps clk c (items @ [(w, key)])))"
    "sint (timeSub (clk j) t) < sint resend"
    using fired_recently [of "cDeduper c" "clk j" a] assms(2) a(2) by auto
  obtain a b i where "(a, b) \<in> set (reportWindows P clk c (items @ [(w, key)]))" "i \<in> {a..<b}" "t = clk i"
    using windows_cover [OF _ t(1), of P] assms(3) by (auto simp: d)
  then show ?thesis using t(2) j(2,3) ticks
    by (intro bexI [of _ "(a, b)"] case_prodI bexI [of _ i] bexI [of _ j]) simp_all
qed

theorem standing_problem_reported_witness:
  "reportWindows (logsKey crashKey) slowClock demoController [(demoWorld (Found demoPod), demoKey)] \<noteq> []"
proof -
  have "presents slowClock (demoWorld (Found demoPod)) (ctrlRun slowClock demoController []) demoKey crashKey"
    using demo_views(1) [of slowClock] by (simp add: presents_def)
  from standing_problem_reported [OF demoController_def _ fullSink_reveals this] show ?thesis by (auto simp: go_defs)
qed

section \<open>Pods being deleted\<close>

text \<open>
  C39.  The rules of EvaluatePod are silent on a Pod that is being deleted, but the rapid-restart
  rule is not: it gives the same alerts as if the deletion timestamp were not set, and a
  concrete deleting Pod is alerted on.
\<close>

theorem deleting_pod_rapid_restart:
  "(\<forall>isPrint c pod now. podDeletionTimestamp pod \<noteq> None \<longrightarrow>
      EvaluatePod isPrint (Some pod) (oThresholds (cOpts c)) now = [] \<and>
      fst (rapidRestartAlerts isPrint c pod now) =
        fst (rapidRestartAlerts isPrint c (pod\<lparr>podDeletionTimestamp := None\<rparr>) now)) \<and>
   map alReason (fst (rapidRestartAlerts (\<lambda>_. True)
      (New (demoOptions\<lparr>oRapidRestartCount := 1\<rparr>) (cDeduper demoController) \<lparr>ready = True\<rparr>)
      (demoPod\<lparr>podDeletionTimestamp := Some (clockAt 0)\<rparr>) (clockAt 9))) = [ReasonRapidRestart]"
proof (intro conjI allI impI)
  fix isPrint c now and pod :: Pod
  have "rapidStep isPrint (pod\<lparr>podDeletionTimestamp := None\<rparr>) = rapidStep isPrint pod"
    by (simp add: rapidStep_def fun_eq_iff case_prod_beta Let_def)
  then show "fst (rapidRestartAlerts isPrint c pod now) =
      fst (rapidRestartAlerts isPrint c (pod\<lparr>podDeletionTimestamp := None\<rparr>) now)"
    by (simp add: rapidRestartAlerts_def case_prod_beta)
next
  show "map alReason (fst (rapidRestartAlerts (\<lambda>_. True)
      (New (demoOptions\<lparr>oRapidRestartCount := 1\<rparr>) (cDeduper demoController) \<lparr>ready = True\<rparr>)
      (demoPod\<lparr>podDeletionTimestamp := Some (clockAt 0)\<rparr>) (clockAt 9))) = [ReasonRapidRestart]"
    by (simp add: rapidRestartAlerts_def New_def Let_def demoOptions_def demoPod_def rapidStep_def
        observe_def newRestartTracker_def demoContainer_def zeroHistory_def timeAfter_def timeAdd_def
        clockAt_def go_defs)
qed (simp add: EvaluatePod_gone)

theorem deleting_pod_rapid_restart_witness:
  "EvaluatePod (\<lambda>_. True) (Some (demoPod\<lparr>podDeletionTimestamp := Some (clockAt 0)\<rparr>)) DefaultThresholds (clockAt 9) = []"
proof -
  have "podDeletionTimestamp (demoPod\<lparr>podDeletionTimestamp := Some (clockAt 0)\<rparr>) \<noteq> None" by simp
  with deleting_pod_rapid_restart have
    "EvaluatePod (\<lambda>_. True) (Some (demoPod\<lparr>podDeletionTimestamp := Some (clockAt 0)\<rparr>))
       (oThresholds (cOpts demoController)) (clockAt 9) = []" by blast
  then show ?thesis by (simp add: demoController_def New_def Let_def demoOptions_def)
qed

section \<open>Gauges\<close>

lemma countUnhealthy_filter:
  "countUnhealthy active = length (filter (\<lambda>(k, s). hasPrefix k ''Pod|'' \<and> firing s) active)"
proof -
  have "fold (\<lambda>(k, states) n. if \<not> hasPrefix k ''Pod|'' then n else if firing states then n + 1 else n) active n =
      n + length (filter (\<lambda>(k, s). hasPrefix k ''Pod|'' \<and> firing s) active)" for n
    by (induction active arbitrary: n) (simp_all add: case_prod_beta)
  then show ?thesis by (simp add: countUnhealthy_def)
qed

lemma firing_iff:
  assumes "map_ok s"
  shows "firing s \<longleftrightarrow> (\<exists>k st. mget s k = Some st \<and> isFiring st)"
  using mget_eq_iff_mem [OF assms] by (force simp: firing_def list_ex_iff isFiring_def)

lemma map_ok_card_filter:
  assumes "map_ok m"
  shows "length (filter (\<lambda>(k, v). P k v) m) = card {k. \<exists>v. mget m k = Some v \<and> P k v}"
proof -
  have "distinct (map fst (filter (\<lambda>(k, v). P k v) m))"
    using assms by (simp add: map_ok_def distinct_map_filter)
  then have "length (filter (\<lambda>(k, v). P k v) m) = card (set (map fst (filter (\<lambda>(k, v). P k v) m)))"
    by (metis distinct_card length_map)
  also have "set (map fst (filter (\<lambda>(k, v). P k v) m)) = {k. \<exists>v. mget m k = Some v \<and> P k v}"
    using mget_eq_iff_mem [OF assms] by force
  finally show ?thesis .
qed

text \<open>
  C30.  In every reachable state the unhealthy-pods gauge is set to the number of Pods with at least
  one alert that is firing, not merely clearing; the refresh changes nothing else.
\<close>

theorem unhealthy_gauge_counts:
  assumes "ctrl_reachable clk c"
  shows "last (cOut (refreshGauges w c)) = GaugeSet sentinel_unhealthy_pods
       (int (card {obj. hasPrefix obj ''Pod|'' \<and> (\<exists>k st. activeOf c obj k = Some st \<and> isFiring st)})) \<and>
     (refreshGauges w c)\<lparr>cOut := cOut c\<rparr> = c"
proof -
  have t: "tables_ok c" using ctrl.holds_reachable [OF assms] by (simp add: ctrl_inv_def)
  have ok: "map_ok (cActive c)" using t by (simp add: tables_ok_def)
  have "countUnhealthy (cActive c) = card {obj. \<exists>s. mget (cActive c) obj = Some s \<and> hasPrefix obj ''Pod|'' \<and> firing s}"
    unfolding countUnhealthy_filter by (rule map_ok_card_filter [OF ok])
  also have "{obj. \<exists>s. mget (cActive c) obj = Some s \<and> hasPrefix obj ''Pod|'' \<and> firing s} =
      {obj. hasPrefix obj ''Pod|'' \<and> (\<exists>k st. activeOf c obj k = Some st \<and> isFiring st)}"
    using t by (fastforce simp: activeOf_def tables_ok_def firing_iff split: option.splits)
  finally show ?thesis
    by (simp add: refreshGauges_def Let_def emit_def split: option.split)
qed

theorem unhealthy_gauge_counts_witness:
  "last (cOut (refreshGauges (demoWorld NotFound) demoRun)) = GaugeSet sentinel_unhealthy_pods
     (int (card {obj. hasPrefix obj ''Pod|'' \<and> (\<exists>k st. activeOf demoRun obj k = Some st \<and> isFiring st)}))"
  using unhealthy_gauge_counts [OF demo_reachable(2)] by blast

end
