(* ===== verification/Controller_Queue.thy ===== *)
theory Controller_Queue
  imports Controller_Runs
begin

text \<open>
  The controller in its process: informer notifications, the worker loop, the gauge ticker and
  \<^verbatim>\<open>Run\<close> of \<^verbatim>\<open>src/internal/watcher/controller.go\<close>.  The work queue and the key functions are
  client-go's; what the code relies on is stated as the laws \<open>wq_laws\<close>, \<open>drain_laws\<close> and
  \<open>keys_ok\<close>, and a concrete queue at the end of the theory satisfies them.

  Workers run concurrently; the queue never hands one key to two of them and all shared state
  is behind locks, so a run is a sequence of whole \<^verbatim>\<open>processNext\<close> calls, notifications and ticks.
\<close>

section \<open>Informer notifications\<close>

datatype 'o notification =
    AddFunc "'o informerObj"
  | UpdateFunc "'o informerObj" "'o informerObj"
  | DeleteFunc "'o informerObj"
  | WatchErrorHandler string

definition podNotified ::
  "'q workqueue \<Rightarrow> ('o \<Rightarrow> string option) \<Rightarrow> (string \<Rightarrow> string \<times> string) \<Rightarrow> 'o notification \<Rightarrow>
   Controller \<times> 'q \<Rightarrow> Controller \<times> 'q"
where
  "podNotified wq keyFunc splitKey n cq =
     (case cq of (c, q) \<Rightarrow>
      case n of
        AddFunc obj \<Rightarrow> (c, enqueuePod wq keyFunc splitKey obj q)
      | UpdateFunc old obj \<Rightarrow> (c, enqueuePod wq keyFunc splitKey obj q)
      | DeleteFunc obj \<Rightarrow> (c, enqueuePod wq keyFunc splitKey obj q)
      | WatchErrorHandler err \<Rightarrow>
          (emit c [CounterInc sentinel_informer_reconnects_total [],
                   LogAttrs LevelWarn ''pod informer watch error, will re-establish'' [(''err'', err)]], q))"

text \<open>Node handlers exist only when nodes are watched.\<close>

definition nodeNotified ::
  "'q workqueue \<Rightarrow> ('o \<Rightarrow> string option) \<Rightarrow> (string \<Rightarrow> string \<times> string) \<Rightarrow> 'o notification \<Rightarrow>
   Controller \<times> 'q \<Rightarrow> Controller \<times> 'q"
where
  "nodeNotified wq keyFunc splitKey n cq =
     (case cq of (c, q) \<Rightarrow>
      if \<not> oWatchNodes (cOpts c) then (c, q)
      else case n of
        AddFunc obj \<Rightarrow> (c, enqueueNode wq keyFunc splitKey obj q)
      | UpdateFunc old obj \<Rightarrow> (c, enqueueNode wq keyFunc splitKey obj q)
      | DeleteFunc obj \<Rightarrow> (c, enqueueNode wq keyFunc splitKey obj q)
      | WatchErrorHandler err \<Rightarrow>
          (emit c [CounterInc sentinel_informer_reconnects_total [],
                   LogAttrs LevelWarn ''node informer watch error, will re-establish'' [(''err'', err)]], q))"

section \<open>Run\<close>

datatype 'o sys_event =
    ProcessNext world
  | PodNotified "'o notification"
  | NodeNotified "'o notification"
  | Tick world

fun sysStep ::
  "'q workqueue \<Rightarrow> (nat \<Rightarrow> time) \<Rightarrow> ('o \<Rightarrow> string option) \<Rightarrow> (string \<Rightarrow> string \<times> string) \<Rightarrow>
   'o sys_event \<Rightarrow> Controller \<times> 'q \<Rightarrow> Controller \<times> 'q"
where
  "sysStep wq clk keyFunc splitKey (ProcessNext w) cq = snd (processNext wq clk w cq)"
| "sysStep wq clk keyFunc splitKey (PodNotified n) cq = podNotified wq keyFunc splitKey n cq"
| "sysStep wq clk keyFunc splitKey (NodeNotified n) cq = nodeNotified wq keyFunc splitKey n cq"
| "sysStep wq clk keyFunc splitKey (Tick w) (c, q) = (refreshGauges w c, q)"

fun isNotification :: "'o sys_event \<Rightarrow> bool" where
  "isNotification (PodNotified n) \<longleftrightarrow> True"
| "isNotification (NodeNotified n) \<longleftrightarrow> True"
| "isNotification _ \<longleftrightarrow> False"

text \<open>
  The worker pool: every worker runs \<^verbatim>\<open>for c.processNext(ctx) {}\<close>, so it stays in the set of
  running workers until \<^verbatim>\<open>processNext\<close> returns false.  A schedule says whose turn it is and what
  the listers hold then; a worker that has returned has no more turns.
\<close>

fun workerTurn ::
  "'q workqueue \<Rightarrow> (nat \<Rightarrow> time) \<Rightarrow> nat \<times> world \<Rightarrow> nat set \<times> Controller \<times> 'q \<Rightarrow> nat set \<times> Controller \<times> 'q"
where
  "workerTurn wq clk (i, w) (running, cq) =
     (if i \<notin> running then (running, cq)
      else case processNext wq clk w cq of
        (True, cq) \<Rightarrow> (running, cq)
      | (False, cq) \<Rightarrow> (running - {i}, cq))"

definition workerPool ::
  "'q workqueue \<Rightarrow> (nat \<Rightarrow> time) \<Rightarrow> (nat \<times> world) list \<Rightarrow> nat set \<times> Controller \<times> 'q \<Rightarrow> nat set \<times> Controller \<times> 'q"
where
  "workerPool wq clk sch = fold (workerTurn wq clk) sch"

definition workersOf :: "Options \<Rightarrow> nat set" where
  "workersOf opts = {..<nat (sint (oWorkers opts))}"

datatype run_result = Returned "string option" | StillDraining | Panicked

definition boolString :: "bool \<Rightarrow> string" where
  "boolString b = (if b then ''true'' else ''false'')"

text \<open>
  \<^verbatim>\<open>Run\<close>: \<open>early\<close> is what the informers report before \<^verbatim>\<open>WaitForCacheSync\<close> returns, when no worker
  and no ticker runs yet, \<open>synced\<close> its answer, \<open>events\<close> what happens from then until the
  context is cancelled, \<open>sch\<close> the turns of the workers while the queue drains.  \<^verbatim>\<open>wg.Wait\<close> returns
  when no worker is left.  Log attributes are given in their text form.
\<close>

definition Run ::
  "'q workqueue \<Rightarrow> ('q \<Rightarrow> 'q) \<Rightarrow> (nat \<Rightarrow> time) \<Rightarrow> ('o \<Rightarrow> string option) \<Rightarrow> (string \<Rightarrow> string \<times> string) \<Rightarrow>
   'o sys_event list \<Rightarrow> bool \<Rightarrow> 'o sys_event list \<Rightarrow> (nat \<times> world) list \<Rightarrow> Controller \<times> 'q \<Rightarrow>
   run_result \<times> Controller \<times> 'q"
where
  "Run wq shutDown clk keyFunc splitKey early synced events sch cq =
     (case cq of (c, q) \<Rightarrow>
      let c = emit c [LogAttrs LevelInfo ''starting informers''
                [(''namespace'', nsForLog (oNamespace (cOpts c))),
                 (''watchNodes'', boolString (oWatchNodes (cOpts c))),
                 (''resync'', durationString (oResyncPeriod (cOpts c)))]];
          (c, q) = fold (sysStep wq clk keyFunc splitKey) (filter isNotification early) (c, q)
      in if \<not> synced then (Returned (Some ''watcher: informer caches failed to sync''), c, shutDown q)
         else
           (let c = emit c [LogAttrs LevelInfo ''informer caches synced'' []];
                c = c\<lparr>cMetrics := SetReady (cMetrics c) True\<rparr>;
                workers = workersOf (cOpts c);
                (c, q) = fold (sysStep wq clk keyFunc splitKey) events (c, q);
                c = emit c [LogAttrs LevelInfo ''shutdown signal received, draining work queue'' []];
                (running, c, q) = workerPool wq clk sch (workers, c, shutDown q)
            in if running \<noteq> {} then (StillDraining, c, q) else (Returned None, c, shutDown q)))"

section \<open>What the code relies on\<close>

text \<open>
  \<open>pend q\<close> is the set of keys the queue may still hand out.  \<open>Add\<close> and \<open>AddRateLimited\<close> add
  at most their key to it and no operation invents one; \<open>NumRequeues\<close> counts the rate-limited
  adds of a key since its last \<open>Forget\<close>.
\<close>

definition wq_laws :: "'q workqueue \<Rightarrow> ('q \<Rightarrow> queueKey set) \<Rightarrow> bool" where
  "wq_laws wq pend \<longleftrightarrow>
     (\<forall>k q. pend (qAdd wq k q) \<subseteq> insert k (pend q)) \<and>
     (\<forall>k q. pend (qAddRateLimited wq k q) \<subseteq> insert k (pend q)) \<and>
     (\<forall>k q. pend (qForget wq k q) \<subseteq> pend q) \<and>
     (\<forall>k q. pend (qDone wq k q) \<subseteq> pend q) \<and>
     (\<forall>q. pend (snd (qGet wq q)) \<subseteq> pend q) \<and>
     (\<forall>k q. fst (qGet wq q) = Some k \<longrightarrow> k \<in> pend q) \<and>
     (\<forall>k k' q. qNumRequeues wq k (qAdd wq k' q) = qNumRequeues wq k q) \<and>
     (\<forall>k k' q. qNumRequeues wq k (qDone wq k' q) = qNumRequeues wq k q) \<and>
     (\<forall>k q. qNumRequeues wq k (snd (qGet wq q)) = qNumRequeues wq k q) \<and>
     (\<forall>k k' q. qNumRequeues wq k (qAddRateLimited wq k' q) = qNumRequeues wq k q + (if k = k' then 1 else 0)) \<and>
     (\<forall>k k' q. qNumRequeues wq k (qForget wq k' q) = (if k = k' then 0 else qNumRequeues wq k q))"

text \<open>
  After \<open>ShutDown\<close> a queue is closed and takes no new keys: \<open>work q\<close>, the number of keys it
  still has to hand out, falls with every \<open>Get\<close> that returns one and is raised by nothing.
\<close>

definition drain_laws :: "'q workqueue \<Rightarrow> ('q \<Rightarrow> 'q) \<Rightarrow> ('q \<Rightarrow> bool) \<Rightarrow> ('q \<Rightarrow> nat) \<Rightarrow> bool" where
  "drain_laws wq shutDown closed work \<longleftrightarrow>
     (\<forall>q. closed (shutDown q)) \<and>
     (\<forall>q. closed q \<longrightarrow> closed (snd (qGet wq q)) \<and>
        work (snd (qGet wq q)) + (if fst (qGet wq q) = None then 0 else 1) \<le> work q) \<and>
     (\<forall>k q. closed q \<longrightarrow> closed (qAddRateLimited wq k q) \<and> work (qAddRateLimited wq k q) \<le> work q) \<and>
     (\<forall>k q. closed q \<longrightarrow> closed (qForget wq k q) \<and> work (qForget wq k q) \<le> work q) \<and>
     (\<forall>k q. closed q \<longrightarrow> closed (qDone wq k q) \<and> work (qDone wq k q) \<le> work q)"

text \<open>The key of an informer object splits into the object's plain namespace and name.\<close>

definition keys_ok :: "('o \<Rightarrow> string option) \<Rightarrow> (string \<Rightarrow> string \<times> string) \<Rightarrow> bool" where
  "keys_ok keyFunc splitKey \<longleftrightarrow>
     (\<forall>obj key. keyFunc obj = Some key \<longrightarrow> plain (fst (splitKey key)) \<and> plain (snd (splitKey key)))"

section \<open>Retries\<close>

text \<open>The reconciles that fail: a lister error, or a key of an unknown kind.\<close>

definition fails :: "world \<Rightarrow> queueKey \<Rightarrow> bool" where
  "fails w key \<longleftrightarrow>
     (if qkKind key = ''Pod'' then \<exists>e. wPodGet w (qkNamespace key) (qkName key) = GetErr e
      else if qkKind key = ''Node'' then \<exists>e. wNodeGet w (qkName key) = GetErr e
      else True)"

lemma reconcile_fails: "snd (reconcile clk w c key) \<noteq> None \<longleftrightarrow> fails w key"
proof -
  have "snd (reconcile clk w c key) \<noteq> None \<longleftrightarrow> (\<exists>e. viewOf clk w c key = VFailed e)"
    by (simp add: reconcile_view split: view.split)
  also have "\<dots> \<longleftrightarrow> fails w key"
    by (simp add: viewOf_def fails_def Let_def split: getResult.split)
  finally show ?thesis .
qed

lemma processNext_none: "qGet wq q = (None, q1) \<Longrightarrow> processNext wq clk w (c, q) = (False, c, q1)"
  by (simp add: processNext_def)

text \<open>What one iteration of the worker does to the queue and to the controller.\<close>

lemma processNext_some:
  assumes "qGet wq q = (Some key, q1)"
  shows "fst (processNext wq clk w (c, q))"
    "snd (snd (processNext wq clk w (c, q))) =
       qDone wq key (if fails w key \<and> qNumRequeues wq key q1 < 5 then qAddRateLimited wq key q1
                     else qForget wq key q1)"
    "fst (snd (processNext wq clk w (c, q))) =
       (fst (reconcile clk w (tick c) key))
         \<lparr>cTicks := cTicks (fst (snd (processNext wq clk w (c, q)))),
          cOut := cOut (fst (snd (processNext wq clk w (c, q))))\<rparr>"
proof -
  obtain c' err where rec: "reconcile clk w (tick c) key = (c', err)" by fastforce
  then have f: "fails w key \<longleftrightarrow> err \<noteq> None" using reconcile_fails [of clk w "tick c" key] by simp
  note unfold = processNext_def assms timeNow_def tick_def [symmetric] rec f emit_def Let_def
  show "fst (processNext wq clk w (c, q))" "snd (snd (processNext wq clk w (c, q))) =
       qDone wq key (if fails w key \<and> qNumRequeues wq key q1 < 5 then qAddRateLimited wq key q1
                     else qForget wq key q1)"
    by (auto simp: unfold split: option.split)
  show "fst (snd (processNext wq clk w (c, q))) =
       (fst (reconcile clk w (tick c) key))
         \<lparr>cTicks := cTicks (fst (snd (processNext wq clk w (c, q)))),
          cOut := cOut (fst (snd (processNext wq clk w (c, q))))\<rparr>"
    by (cases err; simp add: unfold; simp add: tick_def)
qed

lemma processNext_requeues:
  assumes "wq_laws wq pend" "qGet wq q = (Some key, q1)"
  shows "qNumRequeues wq k (snd (snd (processNext wq clk w (c, q)))) =
     (if k \<noteq> key then qNumRequeues wq k q
      else if fails w key \<and> qNumRequeues wq key q < 5 then qNumRequeues wq key q + 1 else 0)"
proof -
  have "qNumRequeues wq k' q1 = qNumRequeues wq k' q" for k'
    using assms by (metis snd_conv wq_laws_def)
  then show ?thesis
    using assms(1) by (simp add: processNext_some(2) [OF assms(2)] wq_laws_def)
qed

lemma processNext_pend:
  assumes "wq_laws wq pend"
  shows "pend (snd (snd (processNext wq clk w (c, q)))) \<subseteq> pend q"
proof (cases "qGet wq q")
  case (Pair r q1)
  have sub: "pend q1 \<subseteq> pend q" using assms Pair by (metis snd_conv wq_laws_def)
  show ?thesis
  proof (cases r)
    case None
    then show ?thesis using sub Pair by (simp add: processNext_none)
  next
    case (Some key)
    then have "key \<in> pend q" using assms Pair by (metis fst_conv wq_laws_def)
    moreover have "pend (qDone wq key (qAddRateLimited wq key q1)) \<subseteq> insert key (pend q1)"
      "pend (qDone wq key (qForget wq key q1)) \<subseteq> pend q1"
      using assms unfolding wq_laws_def by (meson order_trans)+
    ultimately show ?thesis
      using sub processNext_some(2) [of wq q key q1 clk w c] Pair Some by auto
  qed
qed

lemma processNext_inv:
  assumes "wq_laws wq pend" "ctrl_inv c" "lister_ok w" "\<forall>k \<in> pend q. wf_key k"
  shows "ctrl_inv (fst (snd (processNext wq clk w (c, q))))"
proof (cases "qGet wq q")
  case (Pair r q1)
  show ?thesis
  proof (cases r)
    case None
    then show ?thesis using assms(2) Pair by (simp add: processNext_none)
  next
    case (Some key)
    then have "key \<in> pend q" using assms(1) Pair by (metis fst_conv wq_laws_def)
    then have "ctrl_inv (fst (reconcile clk w (tick c) key))"
      using assms by (intro reconcile_inv) (simp_all add: tick_def)
    then show ?thesis
      using processNext_some(3) [of wq q key q1 clk w c] Pair Some by (metis ctrl_inv_frame)
  qed
qed

lemma enqueue_pend:
  assumes "wq_laws wq pend" "keys_ok keyFunc splitKey" "\<forall>k \<in> pend q. wf_key k"
  shows "\<forall>k \<in> pend (enqueuePod wq keyFunc splitKey obj q). wf_key k"
    "\<forall>k \<in> pend (enqueueNode wq keyFunc splitKey obj q). wf_key k"
proof -
  have add: "\<forall>k' \<in> pend (qAdd wq k q). wf_key k'" if "wf_key k" for k
    using assms(1,3) that by (metis insertE subsetD wq_laws_def)
  have key: "plain (fst (splitKey key)) \<and> plain (snd (splitKey key))" if "metaNamespaceKey keyFunc obj = Some key" for key
    using assms(2) that by (cases obj) (auto simp: keys_ok_def)
  have wf: "wf_key \<lparr>qkKind = ''Pod'', qkNamespace = fst (splitKey key), qkName = snd (splitKey key)\<rparr>"
    "wf_key \<lparr>qkKind = ''Node'', qkNamespace = '''', qkName = snd (splitKey key)\<rparr>"
    if "metaNamespaceKey keyFunc obj = Some key" for key
    using key [OF that] by (simp_all add: wf_key_def plain_def)
  show "\<forall>k \<in> pend (enqueuePod wq keyFunc splitKey obj q). wf_key k"
    using assms(3) add [OF wf(1)]
    by (cases "metaNamespaceKey keyFunc obj") (simp_all add: enqueuePod_def case_prod_beta)
  show "\<forall>k \<in> pend (enqueueNode wq keyFunc splitKey obj q). wf_key k"
    using assms(3) add [OF wf(2)]
    by (cases "metaNamespaceKey keyFunc obj") (simp_all add: enqueueNode_def case_prod_beta)
qed

lemma enqueue_requeues:
  assumes "wq_laws wq pend"
  shows "qNumRequeues wq k (enqueuePod wq keyFunc splitKey obj q) = qNumRequeues wq k q"
    "qNumRequeues wq k (enqueueNode wq keyFunc splitKey obj q) = qNumRequeues wq k q"
  using assms by (simp_all add: enqueuePod_def enqueueNode_def wq_laws_def case_prod_beta split: option.split)

section \<open>The whole system\<close>

fun sees_ok :: "'o sys_event \<Rightarrow> bool" where
  "sees_ok (ProcessNext w) \<longleftrightarrow> lister_ok w"
| "sees_ok (PodNotified n) \<longleftrightarrow> True"
| "sees_ok (NodeNotified n) \<longleftrightarrow> True"
| "sees_ok (Tick w) \<longleftrightarrow> True"

inductive sys_step for wq clk keyFunc splitKey where
  happens: "sees_ok e \<Longrightarrow> sys_step wq clk keyFunc splitKey s e (sysStep wq clk keyFunc splitKey e s)"

inductive_cases sys_step_cases: "sys_step wq clk keyFunc splitKey s e t"

definition sys_start :: "'q workqueue \<Rightarrow> ('q \<Rightarrow> queueKey set) \<Rightarrow> ('o \<Rightarrow> string option) \<Rightarrow> (string \<Rightarrow> string \<times> string) \<Rightarrow>
  Controller \<times> 'q \<Rightarrow> bool" where
  "sys_start wq pend keyFunc splitKey s \<longleftrightarrow> wq_laws wq pend \<and> keys_ok keyFunc splitKey \<and>
     started (fst s) \<and> pend (snd s) = {} \<and> (\<forall>k. qNumRequeues wq k (snd s) = 0)"

definition sys_inv :: "'q workqueue \<Rightarrow> ('q \<Rightarrow> queueKey set) \<Rightarrow> ('o \<Rightarrow> string option) \<Rightarrow> (string \<Rightarrow> string \<times> string) \<Rightarrow>
  Controller \<times> 'q \<Rightarrow> bool" where
  "sys_inv wq pend keyFunc splitKey s \<longleftrightarrow> wq_laws wq pend \<and> keys_ok keyFunc splitKey \<and>
     ctrl_inv (fst s) \<and> (\<forall>k \<in> pend (snd s). wf_key k) \<and>
     (\<forall>k. 0 \<le> qNumRequeues wq k (snd s) \<and> qNumRequeues wq k (snd s) \<le> 5)"

lemma processNext_bound:
  assumes "wq_laws wq pend" "\<forall>k. 0 \<le> qNumRequeues wq k q \<and> qNumRequeues wq k q \<le> 5"
  shows "0 \<le> qNumRequeues wq k (snd (snd (processNext wq clk w (c, q)))) \<and>
    qNumRequeues wq k (snd (snd (processNext wq clk w (c, q)))) \<le> 5"
proof (cases "qGet wq q")
  case (Pair r q1)
  show ?thesis
  proof (cases r)
    case None
    then have "qNumRequeues wq k q1 = qNumRequeues wq k q" using Pair assms(1) by (metis snd_conv wq_laws_def)
    then show ?thesis using None Pair assms(2) by (simp add: processNext_none)
  next
    case (Some key)
    then show ?thesis using Pair assms by (simp add: processNext_requeues)
  qed
qed

lemma sysStep_inv:
  assumes "sys_inv wq pend keyFunc splitKey s" "sees_ok e"
  shows "sys_inv wq pend keyFunc splitKey (sysStep wq clk keyFunc splitKey e s)"
proof -
  obtain c q where s: "s = (c, q)" by (cases s)
  note inv = assms(1) [unfolded sys_inv_def s fst_conv snd_conv]
  note laws = inv [THEN conjunct1]
  have wf: "\<forall>k \<in> pend q. wf_key k" and keys: "keys_ok keyFunc splitKey" using inv by blast+
  note step = sys_inv_def s enqueue_requeues [OF laws] enqueue_pend [OF laws keys wf]
  show ?thesis
  proof (cases e)
    case (ProcessNext w)
    then have "ctrl_inv (fst (snd (processNext wq clk w (c, q))))"
      using inv assms(2) by (intro processNext_inv [OF laws]) auto
    moreover have "\<forall>k \<in> pend (snd (snd (processNext wq clk w (c, q)))). wf_key k"
      using processNext_pend [OF laws] inv by blast
    ultimately show ?thesis
      using ProcessNext inv processNext_bound [OF laws] by (simp add: sys_inv_def s)
  next
    case (PodNotified n)
    then show ?thesis
      using inv by (cases n) (simp_all add: step podNotified_def)
  next
    case (NodeNotified n)
    then show ?thesis
      using inv by (cases n) (simp_all add: step nodeNotified_def)
  next
    case (Tick w)
    then show ?thesis using inv by (simp add: sys_inv_def s refreshGauges_inv)
  qed
qed

interpretation sys: invariant_of "sys_start wq pend keyFunc splitKey" "sys_step wq clk keyFunc splitKey"
  "sys_inv wq pend keyFunc splitKey" for wq pend clk keyFunc splitKey
proof unfold_locales
  fix s t e
  show "sys_start wq pend keyFunc splitKey s \<Longrightarrow> sys_inv wq pend keyFunc splitKey s"
    by (auto simp: sys_start_def sys_inv_def started_def New_inv)
  show "sys_inv wq pend keyFunc splitKey s \<Longrightarrow> sys_step wq clk keyFunc splitKey s e t \<Longrightarrow>
      sys_inv wq pend keyFunc splitKey t"
    by (erule sys_step_cases) (simp add: sysStep_inv)
qed

text \<open>
  C8.  The whole system.  Under any interleaving of informer notifications, worker iterations and
  gauge ticks, for any queue with client-go's laws: the deduper remembers exactly the alerts
  the controller tracks, every key in the queue names a Pod or a Node, and no key is ever
  retried more than five times in a row.
\<close>

theorem system_invariant:
  assumes "reachable (sys_start wq pend keyFunc splitKey) (sys_step wq clk keyFunc splitKey) (c, q)"
  shows "dom (mget (dLastSeen (cDeduper c))) = {k. \<exists>obj. activeOf c obj k \<noteq> None} \<and>
     (\<forall>k \<in> pend q. wf_key k) \<and> (\<forall>k. 0 \<le> qNumRequeues wq k q \<and> qNumRequeues wq k q \<le> 5)"
proof -
  have "sys_inv wq pend keyFunc splitKey (c, q)" using assms by (rule sys.holds_reachable)
  then show ?thesis by (simp add: sys_inv_def ctrl_inv_def trackedKeys_def)
qed

text \<open>A first-in first-out queue with the laws.\<close>

type_synonym listQueue = "queueKey list \<times> (queueKey \<Rightarrow> int) \<times> bool"

definition listQueueOps :: "listQueue workqueue" where
  "listQueueOps =
     \<lparr>qAdd = (\<lambda>k (ks, n, b). (if b \<or> k \<in> set ks then ks else ks @ [k], n, b)),
      qGet = (\<lambda>(ks, n, b). case ks of [] \<Rightarrow> (None, ks, n, b) | k # ks \<Rightarrow> (Some k, ks, n, b)),
      qDone = (\<lambda>k q. q),
      qNumRequeues = (\<lambda>k (ks, n, b). n k),
      qAddRateLimited = (\<lambda>k (ks, n, b). (if b \<or> k \<in> set ks then ks else ks @ [k], n(k := n k + 1), b)),
      qForget = (\<lambda>k (ks, n, b). (ks, n(k := 0), b))\<rparr>"

definition listShutDown :: "listQueue \<Rightarrow> listQueue" where
  "listShutDown q = (case q of (ks, n, b) \<Rightarrow> (ks, n, True))"

lemma listQueue_laws: "wq_laws listQueueOps (\<lambda>q. set (fst q))"
  by (auto simp: wq_laws_def listQueueOps_def neq_Nil_conv split: list.splits)

lemma listQueue_drain:
  "drain_laws listQueueOps listShutDown (\<lambda>q. snd (snd q)) (\<lambda>q. length (fst q))"
  by (auto simp: drain_laws_def listQueueOps_def listShutDown_def split: list.splits)

definition demoKeyFunc :: "string \<Rightarrow> string option" where
  "demoKeyFunc name = (if plain name then Some name else None)"

definition demoSplitKey :: "string \<Rightarrow> string \<times> string" where
  "demoSplitKey key = (if plain key then (''default'', key) else ('''', ''''))"

lemma demo_keys_ok: "keys_ok demoKeyFunc demoSplitKey"
  by (auto simp: keys_ok_def demoKeyFunc_def demoSplitKey_def plain_def)

definition demoSystem :: "Controller \<times> listQueue" where
  "demoSystem = (demoController, [], \<lambda>_. 0, False)"

lemma demoSystem_start: "sys_start listQueueOps (\<lambda>q. set (fst q)) demoKeyFunc demoSplitKey demoSystem"
  unfolding sys_start_def
proof (intro conjI)
  show "wq_laws listQueueOps (\<lambda>q. set (fst q))" by (rule listQueue_laws)
  show "keys_ok demoKeyFunc demoSplitKey" by (rule demo_keys_ok)
  show "started (fst demoSystem)"
    unfolding demoSystem_def demoController_def started_def fst_conv by blast
qed (simp_all add: demoSystem_def listQueueOps_def)

theorem system_invariant_witness:
  "\<exists>c q. sysStep listQueueOps demoClock demoKeyFunc demoSplitKey (PodNotified (AddFunc (Obj ''crash''))) demoSystem = (c, q) \<and>
     fst q = [demoKey] \<and> (\<forall>k \<in> set (fst q). wf_key k)"
proof -
  let ?s = "sysStep listQueueOps demoClock demoKeyFunc demoSplitKey (PodNotified (AddFunc (Obj ''crash''))) demoSystem"
  obtain c q where s: "?s = (c, q)" by (cases ?s)
  have "reachable (sys_start listQueueOps (\<lambda>q. set (fst q)) demoKeyFunc demoSplitKey)
      (sys_step listQueueOps demoClock demoKeyFunc demoSplitKey) ?s"
    by (rule reachable.advance, rule reachable.initial, rule demoSystem_start) (rule sys_step.happens, simp)
  from system_invariant [OF this [unfolded s]] have "\<forall>k \<in> set (fst q). wf_key k" by blast
  moreover have "fst q = [demoKey]"
    using s by (auto simp: podNotified_def demoSystem_def enqueuePod_def demoKeyFunc_def demoSplitKey_def
        plain_def listQueueOps_def demoKey_def)
  ultimately show ?thesis using s by blast
qed

text \<open>How often the workers take the key \<open>k\<close> in a run.\<close>

fun attempts ::
  "'q workqueue \<Rightarrow> (nat \<Rightarrow> time) \<Rightarrow> ('o \<Rightarrow> string option) \<Rightarrow> (string \<Rightarrow> string \<times> string) \<Rightarrow> queueKey \<Rightarrow>
   'o sys_event list \<Rightarrow> Controller \<times> 'q \<Rightarrow> nat"
where
  "attempts wq clk kf sk k [] s = 0"
| "attempts wq clk kf sk k (e # es) s =
     (case e of ProcessNext w \<Rightarrow> (if fst (qGet wq (snd s)) = Some k then 1 else 0) | _ \<Rightarrow> 0)
       + attempts wq clk kf sk k es (sysStep wq clk kf sk e s)"

lemma sysStep_requeues:
  assumes "wq_laws wq pend" "\<forall>w. e = ProcessNext w \<longrightarrow> fails w k"
    and "0 \<le> qNumRequeues wq k (snd s)" "qNumRequeues wq k (snd s) \<le> 5"
  shows "qNumRequeues wq k (snd (sysStep wq clk kf sk e s)) =
     (qNumRequeues wq k (snd s) + int (attempts wq clk kf sk k [e] s)) mod 6"
proof -
  obtain c q where s: "s = (c, q)" by (cases s)
  show ?thesis
  proof (cases e)
    case (ProcessNext w)
    obtain r q1 where get: "qGet wq q = (r, q1)" by fastforce
    have q1: "qNumRequeues wq k q1 = qNumRequeues wq k q"
      using assms(1) get by (metis snd_conv wq_laws_def)
    show ?thesis
    proof (cases r)
      case None
      then show ?thesis using ProcessNext get s q1 assms(3,4) by (simp add: processNext_none)
    next
      case (Some key)
      then show ?thesis
        using ProcessNext get s assms by (auto simp: processNext_requeues)
    qed
  next
    case (PodNotified n)
    then show ?thesis using s assms
      by (cases n) (simp_all add: podNotified_def enqueue_requeues [OF assms(1)])
  next
    case (NodeNotified n)
    then show ?thesis using s assms
      by (cases n) (simp_all add: nodeNotified_def enqueue_requeues [OF assms(1)])
  next
    case (Tick w)
    then show ?thesis using s assms by simp
  qed
qed

text \<open>
  C17.  Retry budget.  While every attempt at a key fails, its retry counter runs through 0, 1, \<dots>, 5
  and back to 0: five retries, then the key is dropped.  Notifications, ticks and the work
  on other keys in between do not change this.
\<close>

theorem retries_mod_six:
  assumes "wq_laws wq pend" "\<forall>w. ProcessNext w \<in> set es \<longrightarrow> fails w k"
    and "0 \<le> qNumRequeues wq k (snd s)" "qNumRequeues wq k (snd s) \<le> 5"
  shows "qNumRequeues wq k (snd (fold (sysStep wq clk kf sk) es s)) =
     (qNumRequeues wq k (snd s) + int (attempts wq clk kf sk k es s)) mod 6"
  using assms(2-4)
proof (induction es arbitrary: s)
  case (Cons e es)
  let ?s = "sysStep wq clk kf sk e s"
  have one: "qNumRequeues wq k (snd ?s) = (qNumRequeues wq k (snd s) + int (attempts wq clk kf sk k [e] s)) mod 6"
    using Cons.prems by (intro sysStep_requeues [OF assms(1)]) auto
  have "qNumRequeues wq k (snd (fold (sysStep wq clk kf sk) es ?s)) =
      (qNumRequeues wq k (snd ?s) + int (attempts wq clk kf sk k es ?s)) mod 6"
    using Cons.prems one by (intro Cons.IH) auto
  then show ?case unfolding one by (simp add: mod_simps add.assoc)
qed simp

theorem retries_mod_six_witness:
  "qNumRequeues listQueueOps demoKey
     (snd (fold (sysStep listQueueOps demoClock demoKeyFunc demoSplitKey)
        (replicate 6 (ProcessNext (demoWorld (GetErr ''timeout''))))
        (demoController, [demoKey], (\<lambda>_. 0), False))) =
   int (attempts listQueueOps demoClock demoKeyFunc demoSplitKey demoKey
        (replicate 6 (ProcessNext (demoWorld (GetErr ''timeout''))))
        (demoController, [demoKey], (\<lambda>_. 0), False)) mod 6"
proof -
  have "fails (demoWorld (GetErr ''timeout'')) demoKey"
    by (simp add: fails_def demoWorld_def demoKey_def)
  then have f: "\<forall>w. ProcessNext w \<in> set (replicate 6 (ProcessNext (demoWorld (GetErr ''timeout'')))) \<longrightarrow> fails w demoKey"
    by simp
  have 0: "qNumRequeues listQueueOps demoKey (snd (demoController, [demoKey], (\<lambda>_. 0), False)) = 0"
    by (simp add: listQueueOps_def)
  show ?thesis
    using retries_mod_six [OF listQueue_laws f, of "(demoController, [demoKey], (\<lambda>_. 0), False)"] 0
    by simp
qed

section \<open>Shutdown\<close>

text \<open>An iteration on a closed queue leaves it closed; a successful one takes work away.\<close>

lemma processNext_closed:
  assumes "drain_laws wq shutDown closed work" "closed q" "processNext wq clk w (c, q) = (b, c', q')"
  shows "closed q' \<and> work q' + (if b then 1 else 0) \<le> work q"
proof -
  obtain r q1 where get: "qGet wq q = (r, q1)" by fastforce
  then have q1: "closed q1" "work q1 + (if r = None then 0 else 1) \<le> work q"
    using assms(1,2) by (metis drain_laws_def fst_conv snd_conv)+
  show ?thesis
  proof (cases r)
    case None
    then show ?thesis using assms(3) get q1 by (simp add: processNext_none)
  next
    case (Some key)
    note get = get [unfolded Some]
    have kept: "closed (qDone wq k (f wq k q1)) \<and> work (qDone wq k (f wq k q1)) \<le> work q1"
      if "f = qAddRateLimited \<or> f = qForget" for f k
      using assms(1) that q1(1) unfolding drain_laws_def by (metis order_trans)
    have "q' = qDone wq key (qAddRateLimited wq key q1) \<or> q' = qDone wq key (qForget wq key q1)"
      using processNext_some(2) [OF get, of clk w c] assms(3) by (auto split: if_splits)
    then have "closed q'" "work q' \<le> work q1" using kept by blast+
    then show ?thesis using q1(2) Some by simp
  qed
qed

lemma workerTurn_cases:
  obtains "workerTurn wq clk (j, w) (R, c, q) = (R, c, q)" "j \<notin> R"
  | b c' q' where "workerTurn wq clk (j, w) (R, c, q) = (if b then R else R - {j}, c', q')"
      "processNext wq clk w (c, q) = (b, c', q')" "j \<in> R"
proof (cases "j \<in> R")
  case True
  obtain b c' q' where "processNext wq clk w (c, q) = (b, c', q')" by (metis prod.exhaust)
  then show ?thesis using True that(2) [of b c' q'] by (simp split: bool.split)
qed (use that(1) in simp)

lemma workerPool_gone: "i \<notin> R \<Longrightarrow> i \<notin> fst (workerPool wq clk sch (R, cq))"
proof (induction sch arbitrary: R cq)
  case (Cons t sch)
  obtain j w c q where t: "t = (j, w)" "cq = (c, q)" by fastforce
  show ?case
    by (rule workerTurn_cases [of wq clk j w R c q])
      (use Cons t in \<open>simp_all add: workerPool_def del: workerTurn.simps\<close>)
qed (simp add: workerPool_def)

text \<open>
  A worker with more turns than there is work has returned, whoever else had a turn in
  between: each of its turns ends it or takes some of the work away for good.
\<close>

lemma workerPool_ends:
  assumes "drain_laws wq shutDown closed work" "closed q" "work q < length (filter (\<lambda>t. fst t = i) sch)"
  shows "i \<notin> fst (workerPool wq clk sch (R, c, q))"
  using assms(2,3)
proof (induction sch arbitrary: R c q)
  case (Cons t sch)
  obtain j w where t: "t = (j, w)" by (cases t)
  show ?case
  proof (rule workerTurn_cases [of wq clk j w R c q])
    assume turn: "workerTurn wq clk (j, w) (R, c, q) = (R, c, q)" "j \<notin> R"
    show ?thesis
      using turn t workerPool_gone [of i R wq clk sch "(c, q)"] Cons.IH [of q R c] Cons.prems
      by (cases "i = j") (simp_all add: workerPool_def del: workerTurn.simps)
  next
    fix b c' q'
    assume turn: "workerTurn wq clk (j, w) (R, c, q) = (if b then R else R - {j}, c', q')"
      "processNext wq clk w (c, q) = (b, c', q')"
    note q' = processNext_closed [OF assms(1) Cons.prems(1) turn(2)]
    show ?thesis
    proof (cases "i = j \<and> \<not> b")
      case True
      then show ?thesis
        using turn(1) t workerPool_gone [of i "R - {j}" wq clk sch "(c', q')"]
        by (simp add: workerPool_def del: workerTurn.simps)
    next
      case False
      then have "work q' < length (filter (\<lambda>t. fst t = i) sch)"
        using q' Cons.prems(2) t by (auto split: if_splits)
      then show ?thesis
        using Cons.IH [of q' "if b then R else R - {j}" c'] q' turn(1) t
        by (simp add: workerPool_def del: workerTurn.simps)
    qed
  qed
qed simp

lemma reconcile_metrics [simp, frame]: "cMetrics (fst (reconcile clk w c key)) = cMetrics c"
  by (cases "viewOf clk w c key") (simp_all add: reconcile_view tick_def clearObject_eq)

lemma processNext_metrics [simp, frame]: "cMetrics (fst (snd (processNext wq clk w cq))) = cMetrics (fst cq)"
proof (cases "qGet wq (snd cq)")
  case (Pair r q1)
  show ?thesis
  proof (cases r)
    case None
    then show ?thesis using Pair processNext_none [of wq "snd cq" q1 clk w "fst cq"] by simp
  next
    case (Some key)
    have "fst (snd (processNext wq clk w (fst cq, snd cq))) =
        (fst (reconcile clk w (tick (fst cq)) key))
          \<lparr>cTicks := cTicks (fst (snd (processNext wq clk w (fst cq, snd cq)))),
           cOut := cOut (fst (snd (processNext wq clk w (fst cq, snd cq))))\<rparr>"
      using Pair Some by (intro processNext_some(3)) simp
    from arg_cong [OF this, of cMetrics] show ?thesis by (simp add: tick_def)
  qed
qed

lemma sysStep_metrics: "cMetrics (fst (sysStep wq clk kf sk e s)) = cMetrics (fst s)"
proof -
  have gauges: "cMetrics (refreshGauges w c) = cMetrics c" for w c
    by (simp add: refreshGauges_def emit_def Let_def split: option.split)
  show ?thesis
  proof (cases e)
    case (PodNotified n)
    then show ?thesis by (cases n) (simp_all add: podNotified_def emit_def case_prod_beta)
  next
    case (NodeNotified n)
    then show ?thesis by (cases n) (simp_all add: nodeNotified_def emit_def case_prod_beta)
  qed (cases s; simp add: gauges)+
qed

lemma refreshGauges_opts: "cOpts (refreshGauges w c) = cOpts c"
  by (simp add: refreshGauges_def emit_def Let_def split: option.split)

lemma processNext_opts: "cOpts (fst (snd (processNext wq clk w (c, q)))) = cOpts c"
proof (cases "qGet wq q")
  case (Pair r q1)
  show ?thesis
  proof (cases r)
    case None
    then show ?thesis using Pair by (simp add: processNext_none)
  next
    case (Some key)
    from arg_cong [OF processNext_some(3) [OF Pair [unfolded Some], of clk w c], of cOpts]
    show ?thesis by (simp add: tick_def)
  qed
qed

lemma sysStep_opts: "cOpts (fst (sysStep wq clk kf sk e s)) = cOpts (fst s)"
proof -
  obtain c q where s: "s = (c, q)" by (cases s)
  show ?thesis
  proof (cases e)
    case (PodNotified n)
    then show ?thesis by (cases n) (simp_all add: s podNotified_def emit_def)
  next
    case (NodeNotified n)
    then show ?thesis by (cases n) (simp_all add: s nodeNotified_def emit_def)
  qed (simp_all add: s processNext_opts refreshGauges_opts)
qed

lemma fold_sysStep_opts: "cOpts (fst (fold (sysStep wq clk kf sk) es s)) = cOpts (fst s)"
  by (induction es arbitrary: s) (simp_all add: sysStep_opts)

lemma fold_sysStep_metrics: "cMetrics (fst (fold (sysStep wq clk kf sk) es s)) = cMetrics (fst s)"
  by (induction es arbitrary: s) (simp_all add: sysStep_metrics)

lemma workerPool_metrics: "cMetrics (fst (snd (workerPool wq clk sch (R, c, q)))) = cMetrics c"
proof (induction sch arbitrary: R c q)
  case (Cons t sch)
  obtain j w where t: "t = (j, w)" by (cases t)
  show ?case
  proof (rule workerTurn_cases [of wq clk j w R c q])
    fix b c' q'
    assume turn: "workerTurn wq clk (j, w) (R, c, q) = (if b then R else R - {j}, c', q')"
      "processNext wq clk w (c, q) = (b, c', q')"
    then have "cMetrics c' = cMetrics c" using processNext_metrics [of wq clk w "(c, q)"] by simp
    then show ?thesis
      using Cons [of "if b then R else R - {j}" c' q'] turn(1) t by (simp add: workerPool_def del: workerTurn.simps)
  qed (use Cons [of R c q] t in \<open>simp add: workerPool_def del: workerTurn.simps\<close>)
qed (simp add: workerPool_def)

definition enoughTurns :: "nat \<Rightarrow> nat set \<Rightarrow> (nat \<times> world) list \<Rightarrow> bool" where
  "enoughTurns n workers sch \<longleftrightarrow> (\<forall>i \<in> workers. n < length (filter (\<lambda>t. fst t = i) sch))"

lemma workerPool_drains:
  assumes "drain_laws wq shutDown closed work" "closed q" "enoughTurns (work q) R sch"
  shows "fst (workerPool wq clk sch (R, c, q)) = {}"
proof -
  have "i \<notin> fst (workerPool wq clk sch (R, c, q))" for i
    using workerPool_ends [OF assms(1,2), of i sch clk R c] workerPool_gone [of i R wq clk sch "(c, q)"] assms(3)
    by (cases "i \<in> R") (auto simp: enoughTurns_def)
  then show ?thesis by blast
qed

lemma Run_terminates:
  assumes "drain_laws wq shutDown closed work"
  shows "\<exists>n. \<forall>sch. enoughTurns n (workersOf (cOpts c)) sch \<longrightarrow>
     fst (Run wq shutDown clk kf sk early synced events sch (c, q)) =
       Returned (if synced then None else Some ''watcher: informer caches failed to sync'') \<and>
     ready (cMetrics (fst (snd (Run wq shutDown clk kf sk early synced events sch (c, q))))) =
       (synced \<or> ready (cMetrics c))"
proof -
  let ?start = "emit c [LogAttrs LevelInfo ''starting informers''
                [(''namespace'', nsForLog (oNamespace (cOpts c))),
                 (''watchNodes'', boolString (oWatchNodes (cOpts c))),
                 (''resync'', durationString (oResyncPeriod (cOpts c)))]]"
  obtain c0 q0 where early: "fold (sysStep wq clk kf sk) (filter isNotification early) (?start, q) = (c0, q0)"
    by (metis prod.exhaust)
  have 0: "cMetrics c0 = cMetrics c" "cOpts c0 = cOpts c"
    using fold_sysStep_metrics [of wq clk kf sk "filter isNotification early" "(?start, q)"]
      fold_sysStep_opts [of wq clk kf sk "filter isNotification early" "(?start, q)"] early by (simp_all add: emit_def)
  show ?thesis
  proof (cases synced)
    case True
    let ?c = "(emit c0 [LogAttrs LevelInfo ''informer caches synced'' []])\<lparr>cMetrics := SetReady (cMetrics c0) True\<rparr>"
    obtain c1 q1 where run: "fold (sysStep wq clk kf sk) events (?c, q0) = (c1, q1)" by (metis prod.exhaust)
    have m1: "ready (cMetrics c1)"
      using fold_sysStep_metrics [of wq clk kf sk events "(?c, q0)"] run by (simp add: SetReady_def)
    show ?thesis
    proof (intro exI [of _ "work (shutDown q1)"] allI impI)
      fix sch :: "(nat \<times> world) list"
      assume long: "enoughTurns (work (shutDown q1)) (workersOf (cOpts c)) sch"
      let ?c2 = "emit c1 [LogAttrs LevelInfo ''shutdown signal received, draining work queue'' []]"
      obtain R c3 q3 where pool: "workerPool wq clk sch (workersOf (cOpts c), ?c2, shutDown q1) = (R, c3, q3)"
        by (metis prod.exhaust)
      have "closed (shutDown q1)" using assms by (simp add: drain_laws_def)
      then have "R = {}" using workerPool_drains [OF assms _ long, of clk ?c2] pool by simp
      moreover have "cMetrics c3 = cMetrics c1"
        using workerPool_metrics [of wq clk sch "workersOf (cOpts c)" ?c2 "shutDown q1"] pool by (simp add: emit_def)
      moreover have "Run wq shutDown clk kf sk early synced events sch (c, q) =
          (if R \<noteq> {} then (StillDraining, c3, q3) else (Returned None, c3, shutDown q3))"
        using True run pool early 0 by (simp add: Run_def Let_def emit_def)
      ultimately show "fst (Run wq shutDown clk kf sk early synced events sch (c, q)) =
         Returned (if synced then None else Some ''watcher: informer caches failed to sync'') \<and>
       ready (cMetrics (fst (snd (Run wq shutDown clk kf sk early synced events sch (c, q))))) =
         (synced \<or> ready (cMetrics c))"
        using True m1 by simp
    qed
  next
    case False
    then show ?thesis using early 0 by (simp add: Run_def Let_def)
  qed
qed

end
