(* ===== verification/Queue_Metrics.thy ===== *)
theory Queue_Metrics
  imports Metrics
begin

text \<open>
  \<^verbatim>\<open>src/internal/metrics/workqueue.go\<close>: the provider that gives client-go's work queue its
  metrics, in the registry that already holds the program's own metric set.
\<close>

section \<open>Model\<close>

text \<open>
  The type assertion on the existing collector is on an interface: a gauge has all the methods
  of a counter.
\<close>

definition assertable :: "collectorKind \<Rightarrow> collectorKind \<Rightarrow> bool" where
  "assertable existing kind \<longleftrightarrow> existing = kind \<or> existing = GaugeKind \<and> kind = CounterKind"

definition register :: "'r registerer \<Rightarrow> collector \<Rightarrow> 'r \<Rightarrow> collector \<times> 'r" where
  "register reg c r =
     (case reg c r of
        (Some (AlreadyRegisteredError existing), r) \<Rightarrow>
          if assertable (coKind existing) (coKind c) then (existing, r) else (c, r)
      | (Some (RegisterError err), r) \<Rightarrow> (c, r)
      | (None, r) \<Rightarrow> (c, r))"

definition gauge :: "'r registerer \<Rightarrow> string \<Rightarrow> string \<Rightarrow> string \<Rightarrow> 'r \<Rightarrow> collector \<times> 'r" where
  "gauge reg name help queue =
     register reg \<lparr>coKind = GaugeKind, coSubsystem = ''sentinel_workqueue'', coName = name, coHelp = help,
       coLabels = [(''queue'', queue)], coVariable = [], coBuckets = []\<rparr>"

definition counter :: "'r registerer \<Rightarrow> string \<Rightarrow> string \<Rightarrow> string \<Rightarrow> 'r \<Rightarrow> collector \<times> 'r" where
  "counter reg name help queue =
     register reg \<lparr>coKind = CounterKind, coSubsystem = ''sentinel_workqueue'', coName = name, coHelp = help,
       coLabels = [(''queue'', queue)], coVariable = [], coBuckets = []\<rparr>"

definition histogram :: "'r registerer \<Rightarrow> string \<Rightarrow> string \<Rightarrow> string \<Rightarrow> 'r \<Rightarrow> collector \<times> 'r" where
  "histogram reg name help queue =
     register reg \<lparr>coKind = HistogramKind, coSubsystem = ''sentinel_workqueue'', coName = name, coHelp = help,
       coLabels = [(''queue'', queue)], coVariable = [],
       coBuckets = [10, 100, 1000, 5000, 10000, 50000, 300000, 600000]\<rparr>"

definition NewDepthMetric :: "'r registerer \<Rightarrow> string \<Rightarrow> 'r \<Rightarrow> collector \<times> 'r" where
  "NewDepthMetric reg name = gauge reg ''depth'' ''Current depth of the work queue.'' name"

definition NewAddsMetric :: "'r registerer \<Rightarrow> string \<Rightarrow> 'r \<Rightarrow> collector \<times> 'r" where
  "NewAddsMetric reg name = counter reg ''adds_total'' ''Total adds to the work queue.'' name"

definition NewLatencyMetric :: "'r registerer \<Rightarrow> string \<Rightarrow> 'r \<Rightarrow> collector \<times> 'r" where
  "NewLatencyMetric reg name =
     histogram reg ''queue_duration_seconds'' ''Time an item waits in the queue before processing.'' name"

definition NewWorkDurationMetric :: "'r registerer \<Rightarrow> string \<Rightarrow> 'r \<Rightarrow> collector \<times> 'r" where
  "NewWorkDurationMetric reg name =
     histogram reg ''work_duration_seconds'' ''Time to process an item from the queue.'' name"

definition NewUnfinishedWorkSecondsMetric :: "'r registerer \<Rightarrow> string \<Rightarrow> 'r \<Rightarrow> collector \<times> 'r" where
  "NewUnfinishedWorkSecondsMetric reg name =
     gauge reg ''unfinished_work_seconds'' ''Seconds of work in progress that has not been observed as done.'' name"

definition NewLongestRunningProcessorSecondsMetric :: "'r registerer \<Rightarrow> string \<Rightarrow> 'r \<Rightarrow> collector \<times> 'r" where
  "NewLongestRunningProcessorSecondsMetric reg name =
     gauge reg ''longest_running_processor_seconds'' ''Age of the longest-running in-flight item.'' name"

definition NewRetriesMetric :: "'r registerer \<Rightarrow> string \<Rightarrow> 'r \<Rightarrow> collector \<times> 'r" where
  "NewRetriesMetric reg name =
     counter reg ''retries_total'' ''Total retries (rate-limited re-adds) for the queue.'' name"

section \<open>Properties\<close>

lemma register_unused:
  assumes "reg_laws reg stored" "unused stored r (fqName c)"
  shows "\<exists>r'. register reg c r = (c, r') \<and> reg c r = (None, r') \<and> stored r' = (stored r)(identity c \<mapsto> c)"
proof -
  obtain r' where "reg c r = (None, r')" "stored r' = (stored r)(identity c \<mapsto> c)" by (rule reg_unused [OF assms])
  then show ?thesis by (simp add: register_def)
qed

lemma register_only:
  assumes "reg_laws reg stored" "only stored r c"
  shows "register reg c r = (c, r)"
  using reg_only [OF assms] by (simp add: register_def assertable_def)

text \<open>The seven metrics of one queue, made one after the other.\<close>

fun makeAll :: "('r \<Rightarrow> collector \<times> 'r) list \<Rightarrow> 'r \<Rightarrow> collector list \<times> 'r" where
  "makeAll [] r = ([], r)"
| "makeAll (mk # mks) r = (let (c, r) = mk r; (cs, r) = makeAll mks r in (c # cs, r))"

definition newQueueMetrics :: "'r registerer \<Rightarrow> string \<Rightarrow> 'r \<Rightarrow> collector list \<times> 'r" where
  "newQueueMetrics reg name =
     makeAll [NewDepthMetric reg name, NewAddsMetric reg name, NewLatencyMetric reg name,
       NewWorkDurationMetric reg name, NewUnfinishedWorkSecondsMetric reg name,
       NewLongestRunningProcessorSecondsMetric reg name, NewRetriesMetric reg name]"

lemma makeAll_only:
  assumes "reg_laws reg stored" "\<forall>c \<in> set cs. only stored r c"
  shows "makeAll (map (register reg) cs) r = (cs, r)"
  using assms(2) by (induction cs) (simp_all add: register_only [OF assms(1)])

text \<open>On unused names the provider does what \<^verbatim>\<open>MustRegister\<close> does.\<close>

lemma makeAll_MustRegister:
  assumes "reg_laws reg stored" "distinct (map fqName cs)" "\<forall>c \<in> set cs. unused stored r (fqName c)"
  shows "Some (snd (makeAll (map (register reg) cs) r)) = MustRegister reg cs r \<and>
     fst (makeAll (map (register reg) cs) r) = cs"
  using assms(2,3)
proof (induction cs arbitrary: r)
  case (Cons c cs)
  obtain r1 where r1: "register reg c r = (c, r1)" "reg c r = (None, r1)" "stored r1 = (stored r)(identity c \<mapsto> c)"
    using register_unused [OF assms(1), of r c] Cons.prems(2) by auto
  have "\<forall>d \<in> set cs. unused stored r1 (fqName d)"
    using unused_other [OF _ r1(3)] Cons.prems by (auto simp: image_iff)
  with Cons.IH [of r1] Cons.prems(1) r1 show ?case by (simp add: case_prod_beta)
qed simp

definition queueCollectors :: "string \<Rightarrow> collector list" where
  "queueCollectors name = map (\<lambda>(k, n, h, bs). \<lparr>coKind = k, coSubsystem = ''sentinel_workqueue'', coName = n, coHelp = h,
      coLabels = [(''queue'', name)], coVariable = [], coBuckets = bs\<rparr>)
     (let buckets = [10, 100, 1000, 5000, 10000, 50000, 300000, 600000] in
      [(GaugeKind, ''depth'', ''Current depth of the work queue.'', []),
       (CounterKind, ''adds_total'', ''Total adds to the work queue.'', []),
       (HistogramKind, ''queue_duration_seconds'', ''Time an item waits in the queue before processing.'', buckets),
       (HistogramKind, ''work_duration_seconds'', ''Time to process an item from the queue.'', buckets),
       (GaugeKind, ''unfinished_work_seconds'', ''Seconds of work in progress that has not been observed as done.'', []),
       (GaugeKind, ''longest_running_processor_seconds'', ''Age of the longest-running in-flight item.'', []),
       (CounterKind, ''retries_total'', ''Total retries (rate-limited re-adds) for the queue.'', [])])"

lemma newQueueMetrics_collectors: "newQueueMetrics reg name = makeAll (map (register reg) (queueCollectors name))"
  unfolding newQueueMetrics_def NewDepthMetric_def NewAddsMetric_def NewLatencyMetric_def NewWorkDurationMetric_def
    NewUnfinishedWorkSecondsMetric_def NewLongestRunningProcessorSecondsMetric_def NewRetriesMetric_def
    gauge_def counter_def histogram_def
  by (simp add: queueCollectors_def Let_def)

lemma metric_names:
  "map fqName metricSet = map fst registeredMetrics"
  "map fqName (queueCollectors name) = map (\<lambda>n. ''sentinel_workqueue_'' @ n)
     [''depth'', ''adds_total'', ''queue_duration_seconds'', ''work_duration_seconds'',
      ''unfinished_work_seconds'', ''longest_running_processor_seconds'', ''retries_total'']"
  by (simp_all add: registeredMetrics_def metricSet_def metricOpts_def fqName_def queueCollectors_def Let_def)

lemma names_distinct:
  assumes "hasPrefix (fqName go) ''go_''" "hasPrefix (fqName proc) ''process_''"
  shows "distinct (map fqName (metricSet @ [go, proc]))" "distinct (map fqName (queueCollectors name))"
    "fqName ` set (queueCollectors name) \<inter> fqName ` set (metricSet @ [go, proc]) = {}"
proof -
  obtain x y where fq: "fqName go = ''go_'' @ x" "fqName proc = ''process_'' @ y"
    using assms by (auto simp: hasPrefix_iff)
  have set: "fqName ` set (queueCollectors name) = set (map fqName (queueCollectors name))"
    "fqName ` set (metricSet @ [go, proc]) = set (map fqName metricSet @ [fqName go, fqName proc])" by simp_all
  show "distinct (map fqName (metricSet @ [go, proc]))" "distinct (map fqName (queueCollectors name))"
    unfolding map_append metric_names list.map fq
    by (simp_all add: registeredMetrics_def metricSet_def metricOpts_def const_defs)
  show "fqName ` set (queueCollectors name) \<inter> fqName ` set (metricSet @ [go, proc]) = {}"
    unfolding set metric_names fq
    by (simp add: registeredMetrics_def metricSet_def metricOpts_def const_defs)
qed

text \<open>
  What \<^verbatim>\<open>New\<close> relies on: the new registry is empty and has the registry's laws, and the runtime's
  collectors have names of their own.
\<close>

definition prom_ok :: "'r prometheus \<Rightarrow> ('r \<Rightarrow> identity \<Rightarrow> collector option) \<Rightarrow> bool" where
  "prom_ok pr stored \<longleftrightarrow> reg_laws (prRegister pr) stored \<and> (\<forall>i. stored (prNewRegistry pr) i = None) \<and>
     hasPrefix (fqName (prGoCollector pr)) ''go_'' \<and> hasPrefix (fqName (prProcessCollector pr)) ''process_''"

lemma newMetrics_registered:
  assumes "prom_ok pr stored"
  obtains r where "newMetrics pr version commit bi =
      Some (\<lparr>ready = False\<rparr>, [GaugeVecSet sentinel_build_info [version, commit, goVersion bi] 1], r)"
    "\<forall>c \<in> set (metricSet @ [prGoCollector pr, prProcessCollector pr]). only stored r c"
    "\<forall>n. n \<notin> fqName ` set (metricSet @ [prGoCollector pr, prProcessCollector pr]) \<longrightarrow> unused stored r n"
proof -
  note ok = assms [unfolded prom_ok_def]
  have names: "distinct (map fqName (metricSet @ [prGoCollector pr, prProcessCollector pr]))"
    using ok by (intro names_distinct(1)) blast+
  have free: "unused stored (prNewRegistry pr) n" for n using ok by (simp add: unused_def)
  obtain r where r: "MustRegister (prRegister pr) (metricSet @ [prGoCollector pr, prProcessCollector pr]) (prNewRegistry pr) = Some r"
      "\<forall>c \<in> set (metricSet @ [prGoCollector pr, prProcessCollector pr]). only stored r c"
      "\<forall>n. n \<notin> fqName ` set (metricSet @ [prGoCollector pr, prProcessCollector pr]) \<longrightarrow> unused stored r n"
    using MustRegister_new [OF conjunct1 [OF ok] names, of "prNewRegistry pr"] free by blast
  have "newMetrics pr version commit bi =
      Some (\<lparr>ready = False\<rparr>, [GaugeVecSet sentinel_build_info [version, commit, goVersion bi] 1], r)"
    using r(1) by (simp only: newMetrics_def metricsNew_def Let_def option.case)
  then show ?thesis using r(2,3) by (rule that)
qed

lemma newMetrics_ok:
  assumes "prom_ok pr stored"
  shows "\<exists>r. newMetrics pr version commit bi =
      Some (\<lparr>ready = False\<rparr>, [GaugeVecSet sentinel_build_info [version, commit, goVersion bi] 1], r)"
  by (rule newMetrics_registered [OF assms, of version commit bi]) blast

text \<open>A registry that is a map from identities to collectors.\<close>

definition mapRegister :: "collector \<Rightarrow> (identity \<Rightarrow> collector option) \<Rightarrow> registerError option \<times> (identity \<Rightarrow> collector option)" where
  "mapRegister c r =
     (case r (identity c) of
        None \<Rightarrow> (None, r(identity c \<mapsto> c))
      | Some c' \<Rightarrow> (Some (AlreadyRegisteredError c'), r))"

definition mapProm :: "(identity \<Rightarrow> collector option) prometheus" where
  "mapProm = \<lparr>prNewRegistry = (\<lambda>_. None), prRegister = mapRegister,
     prGoCollector = metricOpts GaugeKind ''go_goroutines'' ''Goroutines.'' [],
     prProcessCollector = metricOpts GaugeKind ''process_open_fds'' ''Descriptors.'' []\<rparr>"

lemma mapProm_ok: "prom_ok mapProm (\<lambda>r. r)"
  by (simp add: prom_ok_def mapProm_def reg_laws_def mapRegister_def fqName_def metricOpts_def hasPrefix_iff)



end
