(* ===== verification/Main_Cmd.thy ===== *)
theory Main_Cmd
  imports Controller_Queue Queue_Metrics
begin

text \<open>
  \<^verbatim>\<open>src/cmd/sentinel/main.go\<close>: the flags, their parsing, and the wiring of the alert pipeline and
  the controller.  The loop over the arguments is the one of Go's \<^verbatim>\<open>flag\<close> package; parsing an
  integer and a duration, the environment, the process's REST configuration and the kubeconfig
  loader are arguments.
\<close>

section \<open>Flags\<close>

record flags =
  fKubeconfig :: string
  fNamespace :: string
  fMetricsAddr :: string
  fAllNamespaces :: bool
  fWatchNodes :: bool
  fRestartThreshold :: goint
  fPendingGrace :: duration
  fNodeGrace :: duration
  fRapidWindow :: duration
  fRapidCount :: goint
  fResendInterval :: duration
  fClearGrace :: duration
  fResyncPeriod :: duration
  fWorkers :: goint
  fEnableEvents :: bool
  fLogFormat :: string
  fShowVersion :: bool

definition envOr :: "(string \<Rightarrow> string) \<Rightarrow> string \<Rightarrow> string \<Rightarrow> string" where
  "envOr getenv key def = (if getenv key \<noteq> '''' then getenv key else def)"

text \<open>The values the flags have before the arguments are parsed.\<close>

definition registerFlags :: "(string \<Rightarrow> string) \<Rightarrow> flags" where
  "registerFlags getenv =
     \<lparr>fKubeconfig = envOr getenv ''KUBECONFIG'' '''', fNamespace = '''', fMetricsAddr = '':8080'',
      fAllNamespaces = True, fWatchNodes = True, fRestartThreshold = 5,
      fPendingGrace = 5 * Minute, fNodeGrace = 2 * Minute, fRapidWindow = 2 * Minute, fRapidCount = 3,
      fResendInterval = 10 * Minute, fClearGrace = 0, fResyncPeriod = 60 * Second, fWorkers = 2,
      fEnableEvents = True, fLogFormat = ''json'', fShowVersion = False\<rparr>"

record parsers =
  parseInt :: "string \<Rightarrow> goint option"
  parseDuration :: "string \<Rightarrow> duration option"

definition parseBool :: "string \<Rightarrow> bool option" where
  "parseBool s =
     (if s \<in> {''1'', ''t'', ''T'', ''TRUE'', ''true'', ''True''} then Some True
      else if s \<in> {''0'', ''f'', ''F'', ''FALSE'', ''false'', ''False''} then Some False
      else None)"

text \<open>The variable each flag name is bound to, by kind of value.\<close>

datatype binding =
    StringVar "string \<Rightarrow> flags \<Rightarrow> flags"
  | BoolVar "bool \<Rightarrow> flags \<Rightarrow> flags"
  | IntVar "goint \<Rightarrow> flags \<Rightarrow> flags"
  | DurationVar "duration \<Rightarrow> flags \<Rightarrow> flags"

definition flagTable :: "(string \<times> binding) list" where
  "flagTable =
     [(''kubeconfig'', StringVar (\<lambda>v f. f\<lparr>fKubeconfig := v\<rparr>)),
      (''namespace'', StringVar (\<lambda>v f. f\<lparr>fNamespace := v\<rparr>)),
      (''all-namespaces'', BoolVar (\<lambda>v f. f\<lparr>fAllNamespaces := v\<rparr>)),
      (''watch-nodes'', BoolVar (\<lambda>v f. f\<lparr>fWatchNodes := v\<rparr>)),
      (''metrics-addr'', StringVar (\<lambda>v f. f\<lparr>fMetricsAddr := v\<rparr>)),
      (''restart-threshold'', IntVar (\<lambda>v f. f\<lparr>fRestartThreshold := v\<rparr>)),
      (''pending-grace'', DurationVar (\<lambda>v f. f\<lparr>fPendingGrace := v\<rparr>)),
      (''node-notready-grace'', DurationVar (\<lambda>v f. f\<lparr>fNodeGrace := v\<rparr>)),
      (''rapid-restart-window'', DurationVar (\<lambda>v f. f\<lparr>fRapidWindow := v\<rparr>)),
      (''rapid-restart-count'', IntVar (\<lambda>v f. f\<lparr>fRapidCount := v\<rparr>)),
      (''resend-interval'', DurationVar (\<lambda>v f. f\<lparr>fResendInterval := v\<rparr>)),
      (''clear-grace'', DurationVar (\<lambda>v f. f\<lparr>fClearGrace := v\<rparr>)),
      (''resync-period'', DurationVar (\<lambda>v f. f\<lparr>fResyncPeriod := v\<rparr>)),
      (''workers'', IntVar (\<lambda>v f. f\<lparr>fWorkers := v\<rparr>)),
      (''enable-events'', BoolVar (\<lambda>v f. f\<lparr>fEnableEvents := v\<rparr>)),
      (''log-format'', StringVar (\<lambda>v f. f\<lparr>fLogFormat := v\<rparr>)),
      (''version'', BoolVar (\<lambda>v f. f\<lparr>fShowVersion := v\<rparr>))]"

definition isBoolFlag :: "binding \<Rightarrow> bool" where
  "isBoolFlag b = (case b of BoolVar _ \<Rightarrow> True | _ \<Rightarrow> False)"

definition setFlag :: "parsers \<Rightarrow> binding \<Rightarrow> string \<Rightarrow> flags \<Rightarrow> flags option" where
  "setFlag P b v f =
     (case b of
        StringVar upd \<Rightarrow> Some (upd v f)
      | BoolVar upd \<Rightarrow> map_option (\<lambda>x. upd x f) (parseBool v)
      | IntVar upd \<Rightarrow> map_option (\<lambda>x. upd x f) (parseInt P v)
      | DurationVar upd \<Rightarrow> map_option (\<lambda>x. upd x f) (parseDuration P v))"

text \<open>A flag argument: its name and the value after the first \<^verbatim>\<open>=\<close>, if there is one.\<close>

definition splitFlag :: "string \<Rightarrow> string \<times> string option" where
  "splitFlag name =
     (case indexByte (tl name) (CHR ''='') of
        None \<Rightarrow> (name, None)
      | Some i \<Rightarrow> (take (Suc i) name, Some (drop (i + 2) name)))"

text \<open>
  \<^verbatim>\<open>flag.Parse\<close> on the command line's flag set, which exits on error: status 2, or 0 after
  printing the usage for \<^verbatim>\<open>-h\<close>.  \<open>Inl\<close> is the exit status.
\<close>

fun parseArgs :: "parsers \<Rightarrow> string list \<Rightarrow> flags \<Rightarrow> nat + flags" where
  "parseArgs P [] f = Inr f"
| "parseArgs P (s # args) f =
     (if length s < 2 \<or> s ! 0 \<noteq> CHR ''-'' \<or> s = ''--'' then Inr f
      else
        (let name = (if s ! 1 = CHR ''-'' then drop 2 s else drop 1 s) in
         if name = [] \<or> name ! 0 = CHR ''-'' \<or> name ! 0 = CHR ''='' then Inl 2
         else
           (case map_of flagTable (fst (splitFlag name)) of
              None \<Rightarrow> if fst (splitFlag name) = ''help'' \<or> fst (splitFlag name) = ''h'' then Inl 0 else Inl 2
            | Some b \<Rightarrow>
                (case snd (splitFlag name) of
                   Some v \<Rightarrow>
                     (case setFlag P b v f of None \<Rightarrow> Inl 2 | Some f \<Rightarrow> parseArgs P args f)
                 | None \<Rightarrow>
                     if isBoolFlag b then
                       (case setFlag P b ''true'' f of None \<Rightarrow> Inl 2 | Some f \<Rightarrow> parseArgs P args f)
                     else
                       (case args of
                          [] \<Rightarrow> Inl 2
                        | v # args \<Rightarrow>
                            (case setFlag P b v f of None \<Rightarrow> Inl 2 | Some f \<Rightarrow> parseArgs P args f))))))"

definition parseFlags :: "parsers \<Rightarrow> (string \<Rightarrow> string) \<Rightarrow> string list \<Rightarrow> nat + flags" where
  "parseFlags P getenv args = parseArgs P args (registerFlags getenv)"

section \<open>Wiring\<close>

text \<open>
  What the process is given: \<open>inCluster\<close> is \<^verbatim>\<open>rest.InClusterConfig\<close>; \<open>clientConfig\<close> and
  \<open>contextNamespace\<close> are the kubeconfig loader's answers for an explicit path or for the
  default loading rules; \<open>newForConfig\<close> is the error of building a clientset, if any;
  \<open>buildInfo\<close> is the Go version \<^verbatim>\<open>debug.ReadBuildInfo\<close> finds in the binary.
\<close>

record 'cfg restConfig =
  rcUserAgent :: string
  rcRest :: 'cfg

record 'cfg process =
  inCluster :: "string + 'cfg restConfig"
  clientConfig :: "string option \<Rightarrow> string + 'cfg restConfig"
  contextNamespace :: "string option \<Rightarrow> string + string"
  newForConfig :: "'cfg restConfig \<Rightarrow> string option"
  buildInfo :: "string option"

definition explicitPath :: "string \<Rightarrow> string option" where
  "explicitPath kubeconfig = (if kubeconfig \<noteq> '''' then Some kubeconfig else None)"

definition buildRESTConfig :: "'cfg process \<Rightarrow> string \<Rightarrow> string + 'cfg restConfig" where
  "buildRESTConfig p kubeconfig =
     (if kubeconfig = '''' \<and> \<not> isl (inCluster p) then inCluster p
      else clientConfig p (explicitPath kubeconfig))"

definition namespaceFromKubeconfig :: "'cfg process \<Rightarrow> string \<Rightarrow> string" where
  "namespaceFromKubeconfig p kubeconfig =
     (case contextNamespace p (explicitPath kubeconfig) of
        Inl err \<Rightarrow> ''default''
      | Inr ns \<Rightarrow> if ns = '''' then ''default'' else ns)"

datatype handler = TextHandler level | JSONHandler level

definition newLogger :: "string \<Rightarrow> handler" where
  "newLogger format = (if format = ''text'' then TextHandler LevelInfo else JSONHandler LevelInfo)"

text \<open>A handler leaves out records below its level.\<close>

primrec handlerLevel :: "handler \<Rightarrow> level" where
  "handlerLevel (TextHandler l) = l"
| "handlerLevel (JSONHandler l) = l"

fun writes :: "handler \<Rightarrow> call \<Rightarrow> bool" where
  "writes h (LogAttrs l msg attrs) \<longleftrightarrow> handlerLevel h \<le> l"
| "writes h _ \<longleftrightarrow> True"

lemma newLogger_level [simp]: "handlerLevel (newLogger format) = LevelInfo"
  by (simp add: newLogger_def)

lemma writes_newLogger [simp]: "writes (newLogger format) x"
  by (cases x) simp_all

definition nsLabel :: "string \<Rightarrow> string" where
  "nsLabel ns = (if ns = '''' then ''(all)'' else ns)"

text \<open>The stages of \<^verbatim>\<open>run\<close>: the sinks, the namespace, the thresholds, the controller.\<close>

definition sinksOf :: "flags \<Rightarrow> Sink" where
  "sinksOf f = MultiSinkFire ([SlogSinkFire] @ (if fEnableEvents f then [EventSinkFire (Some metricsCounters)] else []))"

definition namespaceOf :: "'cfg process \<Rightarrow> flags \<Rightarrow> string" where
  "namespaceOf p f =
     (if \<not> fAllNamespaces f then
        (if fNamespace f = '''' then namespaceFromKubeconfig p (fKubeconfig f) else fNamespace f)
      else '''')"

definition thresholdsOf :: "flags \<Rightarrow> Thresholds" where
  "thresholdsOf f =
     \<lparr>RestartCountWarn = scast (fRestartThreshold f), PendingGracePeriod = fPendingGrace f,
      NodeNotReadyGracePeriod = fNodeGrace f\<rparr>"

definition wire :: "'cfg process \<Rightarrow> Metrics \<Rightarrow> flags \<Rightarrow> Controller" where
  "wire p m f =
     New \<lparr>oNamespace = namespaceOf p f, oThresholds = thresholdsOf f, oWatchNodes = fWatchNodes f,
          oResyncPeriod = fResyncPeriod f, oRapidRestartWindow = fRapidWindow f,
          oRapidRestartCount = fRapidCount f, oClearGracePeriod = fClearGrace f, oWorkers = fWorkers f\<rparr>
       (NewDeduper (sinksOf f) (fResendInterval f) (Some metricsCounters)) m"

text \<open>
  The controller as \<^verbatim>\<open>run\<close> starts it, with the new metric set and the calls made on it, after
  logging two records.
\<close>

definition launch :: "'cfg process \<Rightarrow> Metrics \<Rightarrow> call list \<Rightarrow> string \<Rightarrow> flags \<Rightarrow> Controller" where
  "launch p m calls version f =
     emit (wire p m f)
       (calls @
        [LogAttrs LevelInfo ''metrics server listening'' [(''addr'', fMetricsAddr f)],
         LogAttrs LevelInfo ''kube-reliability-sentinel starting''
          [(''version'', version), (''namespace'', nsLabel (namespaceOf p f)),
           (''watchNodes'', boolString (fWatchNodes f)), (''events'', boolString (fEnableEvents f))]])"

text \<open>
  The goroutine that runs the metrics server beside the controller: it logs the error \<open>Serve\<close>
  returns, if any, and nothing else depends on it.
\<close>

definition metricsServer :: "serve_event \<Rightarrow> call list" where
  "metricsServer ev =
     (case Serve ev of
        None \<Rightarrow> []
      | Some err \<Rightarrow> [LogAttrs LevelError ''metrics server stopped'' [(''err'', err)]])"

lemma metricsServer_silent:
  "metricsServer ev = [] \<longleftrightarrow> ev = CtxDone None \<or> ev = ErrCh ErrServerClosed"
  by (auto simp: metricsServer_def Serve_def split: serve_event.splits listen_error.splits option.splits)

text \<open>\<^verbatim>\<open>run\<close>: the controller's \<^verbatim>\<open>Run\<close> is an argument, so that it can be given any environment.\<close>

definition run ::
  "'cfg process \<Rightarrow> 'r prometheus \<Rightarrow> string \<Rightarrow> string \<Rightarrow> (Controller \<Rightarrow> run_result \<times> Controller) \<Rightarrow> flags \<Rightarrow>
   run_result \<times> call list"
where
  "run p pr version commit controllerRun f =
     (case buildRESTConfig p (fKubeconfig f) of
        Inl err \<Rightarrow> (Returned (Some (''building REST config: '' @ err)), [])
      | Inr cfg \<Rightarrow>
          (let cfg = cfg\<lparr>rcUserAgent := ''kube-reliability-sentinel/'' @ version\<rparr> in
           case newForConfig p cfg of
             Some err \<Rightarrow> (Returned (Some (''building clientset: '' @ err)), [])
           | None \<Rightarrow>
               (case newMetrics pr version commit (buildInfo p) of
                  None \<Rightarrow> (Panicked, [])
                | Some (m, calls, r) \<Rightarrow>
                    (let (res, c) = controllerRun (launch p m calls version f)
                     in (res, cOut c)))))"

text \<open>
  \<^verbatim>\<open>main\<close>: the exit status, or none while the controller is running, and what was written.  The
  usage text of a rejected command line is the \<^verbatim>\<open>flag\<close> package's, the trace of a panic the
  runtime's.
\<close>

definition main ::
  "parsers \<Rightarrow> (string \<Rightarrow> string) \<Rightarrow> 'cfg process \<Rightarrow> 'r prometheus \<Rightarrow> string \<Rightarrow> string \<Rightarrow>
   (Controller \<Rightarrow> run_result \<times> Controller) \<Rightarrow> string list \<Rightarrow> nat option \<times> call list"
where
  "main P getenv p pr version commit controllerRun args =
     (case parseFlags P getenv args of
        Inl status \<Rightarrow> (Some status, [])
      | Inr f \<Rightarrow>
          if fShowVersion f then
            (Some 0, [Printed (''kube-reliability-sentinel '' @ version @ '' ('' @ commit @ '')'' @ [CHR 0x0A])])
          else
            (let log = filter (writes (newLogger (fLogFormat f)));
                 (res, calls) = run p pr version commit controllerRun f
             in case res of
                  Returned None \<Rightarrow> (Some 0, log calls)
                | Returned (Some err) \<Rightarrow> (Some 1, log (calls @ [LogAttrs LevelError ''fatal'' [(''err'', err)]]))
                | StillDraining \<Rightarrow> (None, log calls)
                | Panicked \<Rightarrow> (Some 2, log calls)))"

section \<open>Properties\<close>

text \<open>
  Defaults.  With no arguments and no kubeconfig in the environment the program watches all
  namespaces and the nodes with the documented thresholds, delivers an alert at most once in ten
  minutes, and considers it resolved after two resync periods of one minute each.
\<close>

lemma default_configuration:
  "parseFlags P (\<lambda>_. '''') [] = Inr (registerFlags (\<lambda>_. '''')) \<and>
   (let c = wire p m (registerFlags (\<lambda>_. '''')) in
      oNamespace (cOpts c) = '''' \<and> oWatchNodes (cOpts c) \<and> oThresholds (cOpts c) = DefaultThresholds \<and>
      oWorkers (cOpts c) = 2 \<and> cClearGrace c = 2 * Minute \<and> dResend (cDeduper c) = 10 * Minute \<and>
      dNext (cDeduper c) = fullSink)"
  by (simp add: parseFlags_def registerFlags_def wire_def New_def Let_def namespaceOf_def thresholdsOf_def
      DefaultThresholds_def NewDeduper_def sinksOf_def fullSink_def go_defs)

text \<open>What setting a flag and splitting an argument have to do with the flag \<^verbatim>\<open>all-namespaces\<close>.\<close>

lemma setFlag_allNamespaces:
  assumes "map_of flagTable name = Some b" "setFlag P b v f = Some g" "fAllNamespaces f" "\<not> fAllNamespaces g"
  shows "name = ''all-namespaces'' \<and> isBoolFlag b \<and> parseBool v = Some False"
proof -
  have "(name, b) \<in> set flagTable" using assms(1) by (rule map_of_SomeD)
  then show ?thesis using assms(2-4) by (auto simp: flagTable_def setFlag_def isBoolFlag_def)
qed

lemma splitFlag_value:
  assumes "splitFlag name = (flag, Some v)" "name \<noteq> []"
  shows "name = flag @ CHR ''='' # v"
proof -
  obtain i where i: "indexByte (tl name) (CHR ''='') = Some i" "flag = take (Suc i) name" "v = drop (Suc (Suc i)) name"
    using assms(1) by (auto simp: splitFlag_def split: option.splits)
  then have "i < length (tl name)" "tl name ! i = CHR ''=''" using indexByte_Some by blast+
  then have "Suc i < length name" "name ! Suc i = CHR ''=''" by (simp_all add: nth_tl)
  then show ?thesis using id_take_nth_drop [of "Suc i" name] by (simp add: i(2,3))
qed

lemma dashes:
  assumes "\<not> (length s < 2 \<or> s ! 0 \<noteq> CHR ''-'' \<or> s = ''--'')"
  shows "s = (if s ! 1 = CHR ''-'' then ''--'' @ drop 2 s else ''-'' @ drop 1 s)"
proof -
  obtain x y r where "s = x # y # r" using assms by (cases s; cases "tl s") auto
  then show ?thesis using assms by simp
qed

definition clearsAllNamespaces :: "string list \<Rightarrow> bool" where
  "clearsAllNamespaces args \<longleftrightarrow> (\<exists>v. parseBool v = Some False \<and>
     (''-all-namespaces='' @ v \<in> set args \<or> ''--all-namespaces='' @ v \<in> set args))"

lemma clearsAllNamespaces_Cons:
  "clearsAllNamespaces args \<Longrightarrow> clearsAllNamespaces (s # args)"
  by (auto simp: clearsAllNamespaces_def)

text \<open>The ways in which one round of the loop succeeds.\<close>

lemma parseArgs_cases:
  assumes "parseArgs P (s # args) f = Inr g"
  obtains "g = f"
  | flag v b f' where "s = ''-'' @ flag @ CHR ''='' # v \<or> s = ''--'' @ flag @ CHR ''='' # v"
      "map_of flagTable flag = Some b" "setFlag P b v f = Some f'" "parseArgs P args f' = Inr g"
  | flag b f' where "map_of flagTable flag = Some b" "setFlag P b ''true'' f = Some f'" "parseArgs P args f' = Inr g"
  | flag b v args' f' where "args = v # args'" "map_of flagTable flag = Some b" "\<not> isBoolFlag b"
      "setFlag P b v f = Some f'" "parseArgs P args' f' = Inr g"
proof (cases "length s < 2 \<or> s ! 0 \<noteq> CHR ''-'' \<or> s = ''--''")
  case True
  then show ?thesis using assms that(1) by simp
next
  case False
  define name where "name = (if s ! 1 = CHR ''-'' then drop 2 s else drop 1 s)"
  have s: "s = ''-'' @ name \<or> s = ''--'' @ name" using dashes [OF False] by (auto simp: name_def)
  note round = assms [unfolded parseArgs.simps if_not_P [OF False] name_def [symmetric] Let_def]
  have name: "\<not> (name = [] \<or> name ! 0 = CHR ''-'' \<or> name ! 0 = CHR ''='')" using round by (auto split: if_splits)
  note round = round [unfolded if_not_P [OF name]]
  obtain flag w where split: "splitFlag name = (flag, w)" by fastforce
  obtain b where b: "map_of flagTable flag = Some b" using round split by (auto split: option.splits if_splits)
  show ?thesis
  proof (cases w)
    case (Some v)
    have "name = flag @ CHR ''='' # v" using splitFlag_value [of name flag v] split Some name by simp
    moreover obtain f' where "setFlag P b v f = Some f'" "parseArgs P args f' = Inr g"
      using round b by (auto simp: split Some split: option.splits)
    ultimately show ?thesis using s b by (intro that(2)) auto
  next
    case None
    show ?thesis
    proof (cases "isBoolFlag b")
      case True
      then obtain f' where "setFlag P b ''true'' f = Some f'" "parseArgs P args f' = Inr g"
        using round b by (auto simp: split None split: option.splits)
      then show ?thesis using b by (intro that(3))
    next
      case False
      then obtain v args' f' where "args = v # args'" "setFlag P b v f = Some f'" "parseArgs P args' f' = Inr g"
        using round b by (auto simp: split None split: option.splits list.splits)
      then show ?thesis using b False by (intro that(4))
    qed
  qed
qed

lemma parseArgs_allNamespaces:
  "parseArgs P args f = Inr g \<Longrightarrow> fAllNamespaces f \<Longrightarrow> \<not> fAllNamespaces g \<Longrightarrow> clearsAllNamespaces args"
proof (induction args arbitrary: f rule: length_induct)
  case (1 args)
  note keep = setFlag_allNamespaces [OF _ _ 1(3)]
  have IH: "clearsAllNamespaces args'"
    if "length args' < length args" "parseArgs P args' f' = Inr g" "fAllNamespaces f'" for args' f'
    using 1(1,4) that by blast
  show ?case
  proof (cases args)
    case Nil
    then show ?thesis using 1(2-4) by simp
  next
    case (Cons s rest)
    show ?thesis
    proof (rule parseArgs_cases [OF 1(2) [unfolded Cons]])
      assume "g = f"
      then show ?thesis using 1(3,4) by simp
    next
      fix flag v b f'
      assume a: "s = ''-'' @ flag @ CHR ''='' # v \<or> s = ''--'' @ flag @ CHR ''='' # v"
        "map_of flagTable flag = Some b" "setFlag P b v f = Some f'" "parseArgs P rest f' = Inr g"
      show ?thesis
      proof (cases "fAllNamespaces f'")
        case True
        then show ?thesis using IH [OF _ a(4)] clearsAllNamespaces_Cons by (simp add: Cons)
      next
        case False
        then have "flag = ''all-namespaces''" "parseBool v = Some False" using keep [OF a(2,3)] by blast+
        then show ?thesis using a(1) unfolding clearsAllNamespaces_def Cons by (intro exI [of _ v]) auto
      qed
    next
      fix flag b f'
      assume a: "map_of flagTable flag = Some b" "setFlag P b ''true'' f = Some f'" "parseArgs P rest f' = Inr g"
      then have "fAllNamespaces f'" using keep [OF a(1,2)] by (auto simp: parseBool_def)
      then show ?thesis using IH [OF _ a(3)] clearsAllNamespaces_Cons by (simp add: Cons)
    next
      fix flag b v args' f'
      assume a: "rest = v # args'" "map_of flagTable flag = Some b" "\<not> isBoolFlag b"
        "setFlag P b v f = Some f'" "parseArgs P args' f' = Inr g"
      then have "fAllNamespaces f'" using keep [OF a(2,4)] by blast
      then show ?thesis using IH [OF _ a(5)] clearsAllNamespaces_Cons by (simp add: Cons a(1))
    qed
  qed
qed

text \<open>
  C38.  The namespace flag needs \<^verbatim>\<open>--all-namespaces=false\<close>.  Watching all namespaces is the default,
  so whatever else a command line that parses contains, if the Pod informer is limited to a
  namespace, some argument sets \<^verbatim>\<open>all-namespaces\<close> to a false value: \<^verbatim>\<open>--namespace\<close> alone has no effect.
  With both flags exactly the named namespace is watched, and a command line that clears
  the one and names no namespace watches that of the kubeconfig.  The Node informer is never limited.
\<close>

theorem namespace_flag_needs_all_namespaces_false:
  assumes "parseFlags P getenv args = Inr f"
  shows "(ifNamespace (podFactory (cOpts (wire p m f))) \<noteq> None \<longrightarrow>
      (\<exists>v. parseBool v = Some False \<and> (''-all-namespaces='' @ v \<in> set args \<or> ''--all-namespaces='' @ v \<in> set args))) \<and>
   (\<not> fAllNamespaces f \<and> fNamespace f \<noteq> '''' \<longrightarrow>
      ifNamespace (podFactory (cOpts (wire p m f))) = Some (fNamespace f)) \<and>
   (\<not> fAllNamespaces f \<and> fNamespace f = '''' \<longrightarrow>
      ifNamespace (podFactory (cOpts (wire p m f))) = Some (namespaceFromKubeconfig p (fKubeconfig f))) \<and>
   (\<forall>i. nodeFactory (cOpts (wire p m f)) = Some i \<longrightarrow> ifNamespace i = None) \<and>
   (\<forall>ns. ns \<noteq> '''' \<longrightarrow> (\<exists>g. parseFlags P getenv [''--namespace='' @ ns, ''-all-namespaces=false''] = Inr g \<and>
      ifNamespace (podFactory (cOpts (wire p m g))) = Some ns))"
proof -
  have named: "namespaceFromKubeconfig p k \<noteq> ''''" for k
    by (simp add: namespaceFromKubeconfig_def split: sum.split)
  have opts: "oNamespace (cOpts (wire p m g)) = namespaceOf p g" for g
    by (simp add: wire_def New_def Let_def)
  have "fAllNamespaces (registerFlags getenv)" by (simp add: registerFlags_def)
  from parseArgs_allNamespaces [OF assms [unfolded parseFlags_def] this]
  have "\<not> fAllNamespaces f \<Longrightarrow> clearsAllNamespaces args" .
  moreover have "\<exists>g. parseFlags P getenv [''--namespace='' @ ns, ''-all-namespaces=false''] = Inr g \<and>
      ifNamespace (podFactory (cOpts (wire p m g))) = Some ns" if "ns \<noteq> ''''" for ns
    using that by (simp add: parseFlags_def registerFlags_def splitFlag_def flagTable_def setFlag_def isBoolFlag_def
        parseBool_def podFactory_def opts namespaceOf_def)
  ultimately show ?thesis
    using named by (auto simp: podFactory_def nodeFactory_def opts namespaceOf_def clearsAllNamespaces_def split: if_splits)
qed

definition demoProcess :: "unit process" where
  "demoProcess =
     \<lparr>inCluster = Inr \<lparr>rcUserAgent = '''', rcRest = ()\<rparr>,
      clientConfig = (\<lambda>_. Inl ''no kubeconfig''), contextNamespace = (\<lambda>_. Inl ''no kubeconfig''),
      newForConfig = (\<lambda>_. None), buildInfo = Some ''go1.24''\<rparr>"

theorem namespace_flag_needs_all_namespaces_false_witness:
  "\<exists>f. parseFlags \<lparr>parseInt = (\<lambda>_. None), parseDuration = (\<lambda>_. None)\<rparr> (\<lambda>_. '''') [''--namespace'', ''prod''] = Inr f \<and>
     fNamespace f = ''prod'' \<and> ifNamespace (podFactory (cOpts (wire demoProcess \<lparr>ready = False\<rparr> f))) = None"
proof -
  let ?P = "\<lparr>parseInt = (\<lambda>_. None), parseDuration = (\<lambda>_. None)\<rparr> :: parsers"
  obtain f where f: "parseFlags ?P (\<lambda>_. '''') [''--namespace'', ''prod''] = Inr f" "fNamespace f = ''prod''"
    by (simp add: parseFlags_def registerFlags_def splitFlag_def flagTable_def setFlag_def isBoolFlag_def)
  have "ifNamespace (podFactory (cOpts (wire demoProcess \<lparr>ready = False\<rparr> f))) = None"
    using namespace_flag_needs_all_namespaces_false [OF f(1), of demoProcess "\<lparr>ready = False\<rparr>"] by auto
  with f show ?thesis by blast
qed

text \<open>
  C37.  A restart threshold within the range of a 32-bit integer is used as given.  One outside it
  is not: 4294967296 becomes 0, and then a container that never restarted but is not Ready
  raises HighRestartCount.
\<close>

theorem restart_threshold_int32:
  "(- (2 ^ 31) \<le> sint (fRestartThreshold f) \<and> sint (fRestartThreshold f) < 2 ^ 31 \<longrightarrow>
      sint (RestartCountWarn (thresholdsOf f)) = sint (fRestartThreshold f)) \<and>
   (fRestartThreshold f = 4294967296 \<and> podDeletionTimestamp pod = None \<and> cs \<in> set (podContainerStatuses pod) \<and>
      csRestartCount cs = 0 \<and> \<not> csReady cs \<longrightarrow>
      (\<exists>a \<in> set (EvaluatePod isPrint (Some pod) (thresholdsOf f) now).
         alReason a = ReasonHighRestartCount \<and> alSeverity a = SeverityWarning \<and> alContainer a = csName cs))"
proof (intro conjI impI)
  assume r: "- (2 ^ 31) \<le> sint (fRestartThreshold f) \<and> sint (fRestartThreshold f) < 2 ^ 31"
  have "sint (word_of_int (sint (fRestartThreshold f)) :: 32 word) = sint (fRestartThreshold f)"
    using r by (intro sint_word_of_int32) auto
  then show "sint (RestartCountWarn (thresholdsOf f)) = sint (fRestartThreshold f)"
    by (simp add: thresholdsOf_def)
next
  assume a: "fRestartThreshold f = 4294967296 \<and> podDeletionTimestamp pod = None \<and> cs \<in> set (podContainerStatuses pod) \<and>
      csRestartCount cs = 0 \<and> \<not> csReady cs"
  then have live: "podDeletionTimestamp pod = None" by blast
  have "RestartCountWarn (thresholdsOf f) = 0" using a by (simp add: thresholdsOf_def scast_eq)
  then have "pod_rule (thresholdsOf f) now pod ReasonHighRestartCount SeverityWarning (csName cs)"
    using a by (intro pod_rule.high_restarts) simp_all
  then show "\<exists>a \<in> set (EvaluatePod isPrint (Some pod) (thresholdsOf f) now).
         alReason a = ReasonHighRestartCount \<and> alSeverity a = SeverityWarning \<and> alContainer a = csName cs"
    by (simp only: EvaluatePod_mem [OF live] pod_rule_alt)
qed

definition quietContainer :: ContainerStatus where
  "quietContainer = demoContainer\<lparr>csRestartCount := 0, csState := \<lparr>Waiting = None, Terminated = None\<rparr>\<rparr>"

theorem restart_threshold_int32_witness:
  "\<exists>a \<in> set (EvaluatePod (\<lambda>_. True) (Some (demoPod\<lparr>podContainerStatuses := [quietContainer]\<rparr>))
       (thresholdsOf ((registerFlags (\<lambda>_. ''''))\<lparr>fRestartThreshold := 4294967296\<rparr>)) zeroTime).
     alReason a = ReasonHighRestartCount"
proof -
  let ?f = "(registerFlags (\<lambda>_. ''''))\<lparr>fRestartThreshold := 4294967296\<rparr>"
  let ?pod = "demoPod\<lparr>podContainerStatuses := [quietContainer]\<rparr>"
  have "fRestartThreshold ?f = 4294967296 \<and> podDeletionTimestamp ?pod = None \<and>
      quietContainer \<in> set (podContainerStatuses ?pod) \<and> csRestartCount quietContainer = 0 \<and> \<not> csReady quietContainer"
    by (simp add: demoPod_def quietContainer_def demoContainer_def)
  with restart_threshold_int32 [of ?f ?pod quietContainer "\<lambda>_. True" zeroTime] show ?thesis by blast
qed

section \<open>Every metric update fits its metric\<close>

definition out_ok :: "Controller \<Rightarrow> bool" where
  "out_ok c \<longleftrightarrow> list_all fits (cOut c) \<and> (\<forall>a. list_all fits (dNext (cDeduper c) a)) \<and>
     dCounters (cDeduper c) = Some metricsCounters"

lemma pipeRun_fits:
  assumes "\<forall>a. list_all fits (dNext d a)" "dCounters d = Some metricsCounters"
  shows "list_all fits (snd (pipeRun d ops))"
  using assms
proof (induction d ops rule: deliveries.induct)
  case (2 d now a ops)
  have "list_all fits (snd (DeduperFire d now a))"
    using 2 by (simp add: DeduperFire_def Let_def metricsCounters_def)
  then show ?case using 2 by (simp add: case_prod_beta)
qed simp_all

lemma out_ok_frame [simp, frame]:
  "out_ok (c\<lparr>cTicks := n\<rparr>) = out_ok c" "out_ok (c\<lparr>cMetrics := m\<rparr>) = out_ok c"
  "out_ok (emit c calls) \<longleftrightarrow> out_ok c \<and> list_all fits calls"
  by (auto simp: out_ok_def emit_def)

lemma reconcile_out_ok: "out_ok c \<Longrightarrow> out_ok (fst (reconcile clk w c key))"
  by (simp add: out_ok_def reconcile_pipe pipeRun_fits)

lemma processNext_out_ok:
  assumes "out_ok c"
  shows "out_ok (fst (snd (processNext wq clk w (c, q))))"
proof (cases "qGet wq q")
  case (Pair r q1)
  show ?thesis
  proof (cases r)
    case None
    then show ?thesis using assms Pair by (simp add: processNext_none)
  next
    case (Some key)
    obtain c' err where rec: "reconcile clk w (tick c) key = (c', err)" by fastforce
    have "out_ok c'" using reconcile_out_ok [of "tick c" clk w key] assms rec by (simp add: tick_def)
    then show ?thesis
      using Pair Some rec
      by (simp add: processNext_def timeNow_def tick_def [symmetric] Let_def split: option.split)
        (simp add: tick_def)
  qed
qed

lemma sysStep_out_ok: "out_ok (fst s) \<Longrightarrow> out_ok (fst (sysStep wq clk kf sk e s))"
proof -
  assume ok: "out_ok (fst s)"
  obtain c q where s: "s = (c, q)" by (cases s)
  show ?thesis
  proof (cases e)
    case (ProcessNext w)
    then show ?thesis using ok by (simp add: s processNext_out_ok)
  next
    case (PodNotified n)
    then show ?thesis using ok by (cases n) (simp_all add: s podNotified_def)
  next
    case (NodeNotified n)
    then show ?thesis using ok by (cases n) (simp_all add: s nodeNotified_def)
  next
    case (Tick w)
    then show ?thesis using ok by (simp add: s refreshGauges_def Let_def split: option.split)
  qed
qed

lemma wire_out_ok: "out_ok (wire p m f)"
  by (simp add: out_ok_def wire_def New_def Let_def NewDeduper_def sinksOf_def SlogSinkFire_def EventSinkFire_def
      metricsCounters_def)

text \<open>The controllers \<^verbatim>\<open>run\<close> can start.\<close>

definition launched :: "'cfg process \<Rightarrow> 'r prometheus \<Rightarrow> Controller \<Rightarrow> bool" where
  "launched p pr c \<longleftrightarrow> (\<exists>version commit m calls r f.
     newMetrics pr version commit (buildInfo p) = Some (m, calls, r) \<and> c = launch p m calls version f)"

lemma launched_out_ok: "launched p pr c \<Longrightarrow> out_ok c"
  by (auto simp: launched_def launch_def wire_out_ok newMetrics_def metricsNew_def Let_def split: option.splits)

interpretation fitting: invariant_of "\<lambda>s. launched p pr (fst s)" "sys_step wq clk keyFunc splitKey"
  "\<lambda>s. out_ok (fst s)" for p pr wq clk keyFunc splitKey
  by unfold_locales (auto simp: launched_out_ok sysStep_out_ok elim: sys_step_cases)

text \<open>
  C29.  No metric update can panic.  In every state the launched program reaches, each counter, gauge
  and histogram call it has made names a registered metric and passes exactly as many label
  values as that metric has labels; and no two metrics are registered under one name.
\<close>

theorem metric_updates_fit:
  assumes "reachable (\<lambda>s. launched p pr (fst s)) (sys_step wq clk keyFunc splitKey) (c, q)"
  shows "list_all fits (cOut c) \<and> distinct (map fst registeredMetrics)"
proof -
  have "out_ok c" using fitting.holds_reachable [OF assms] by simp
  then show ?thesis by (simp add: out_ok_def registered_distinct)
qed

lemma demo_launched:
  assumes "newMetrics pr ''dev'' ''none'' (buildInfo demoProcess) = Some (m, calls, r)"
  shows "launched demoProcess pr (launch demoProcess m calls ''dev'' f)"
  unfolding launched_def using assms by blast

theorem metric_updates_fit_witness:
  "\<exists>m calls r. newMetrics mapProm ''dev'' ''none'' (buildInfo demoProcess) = Some (m, calls, r) \<and>
     (let c = fst (sysStep listQueueOps demoClock demoKeyFunc demoSplitKey (PodNotified (WatchErrorHandler ''reset''))
        (launch demoProcess m calls ''dev'' (registerFlags (\<lambda>_. '''')), [], \<lambda>_. 0, False))
      in list_all fits (cOut c) \<and> cOut c \<noteq> [])"
proof -
  obtain m calls r where new: "newMetrics mapProm ''dev'' ''none'' (buildInfo demoProcess) = Some (m, calls, r)"
    using newMetrics_ok [OF mapProm_ok] by blast
  let ?start = "(launch demoProcess m calls ''dev'' (registerFlags (\<lambda>_. '''')), [], \<lambda>_. 0, False) :: Controller \<times> listQueue"
  let ?e = "PodNotified (WatchErrorHandler ''reset'')"
  let ?s = "sysStep listQueueOps demoClock demoKeyFunc demoSplitKey ?e ?start"
  obtain c q where s: "?s = (c, q)" by (cases ?s)
  have "reachable (\<lambda>s. launched demoProcess mapProm (fst s)) (sys_step listQueueOps demoClock demoKeyFunc demoSplitKey) ?s"
  proof (rule reachable.advance)
    show "reachable (\<lambda>s. launched demoProcess mapProm (fst s)) (sys_step listQueueOps demoClock demoKeyFunc demoSplitKey) ?start"
      by (rule reachable.initial) (simp add: demo_launched [OF new])
    show "sys_step listQueueOps demoClock demoKeyFunc demoSplitKey ?start ?e ?s"
      by (rule sys_step.happens) simp
  qed
  from metric_updates_fit [OF this [unfolded s]] have "list_all fits (cOut (fst ?s))" by (simp only: s fst_conv)
  moreover have "cOut (fst ?s) \<noteq> []"
    by (simp add: podNotified_def emit_def)
  ultimately show ?thesis using new unfolding Let_def by blast
qed

end
