(* ===== verification/K8s_Client.thy ===== *)
theory K8s_Client
  imports K8s_Api
begin

text \<open>
  \<^verbatim>\<open>src/internal/k8sclient\<close>: the dependency-free list-and-watch client.

  The container types of \<^verbatim>\<open>types.go\<close> are those of \<open>K8s_Api\<close>.  JSON decoding, \<^verbatim>\<open>url.Parse\<close>, PEM
  parsing, the environment, the file system and the server are arguments.  A run of
  \<^verbatim>\<open>ListAndWatch\<close> is driven by a list of rounds: what the context answers when it is asked and
  what the server replies to each request.
\<close>

section \<open>types.go\<close>

record ObjectMeta =
  mdName :: string
  mdNamespace :: string
  mdUID :: string
  mdResourceVersion :: string
  mdCreationTimestamp :: time

record PodStatus =
  psPhase :: string
  psContainerStatuses :: "ContainerStatus list"

record ClientPod =
  cpMetadata :: ObjectMeta
  cpStatus :: PodStatus

definition PodKey :: "ClientPod \<Rightarrow> string" where
  "PodKey p = mdNamespace (cpMetadata p) @ ''/'' @ mdName (cpMetadata p)"

record PodList =
  plResourceVersion :: string
  plItems :: "ClientPod list"

type_synonym WatchEventType = string

definition EventAdded :: WatchEventType where [const_defs]: "EventAdded = ''ADDED''"
definition EventModified :: WatchEventType where [const_defs]: "EventModified = ''MODIFIED''"
definition EventDeleted :: WatchEventType where [const_defs]: "EventDeleted = ''DELETED''"
definition EventError :: WatchEventType where [const_defs]: "EventError = ''ERROR''"
definition EventBookmark :: WatchEventType where [const_defs]: "EventBookmark = ''BOOKMARK''"

record Status =
  stCode :: int
  stReason :: string
  stMessage :: string

record WatchEvent =
  weType :: WatchEventType
  weObject :: string

text \<open>
  \<^verbatim>\<open>encoding/json\<close>: what it makes of a list response (its bytes and the error that ends them, if
  any), of one line of a watch, and of the raw object of an event.  Decoding an object fills in a value and may report an error besides.
\<close>

record json =
  decList :: "string \<Rightarrow> string option \<Rightarrow> string + PodList"
  decEvent :: "string \<Rightarrow> string + WatchEvent"
  decPod :: "string \<Rightarrow> ClientPod \<times> string option"
  decStatus :: "string \<Rightarrow> Status \<times> string option"

definition AsPod :: "json \<Rightarrow> WatchEvent \<Rightarrow> ClientPod \<times> string option" where
  "AsPod j e = decPod j (weObject e)"

definition AsStatus :: "json \<Rightarrow> WatchEvent \<Rightarrow> Status \<times> string option" where
  "AsStatus j e = decStatus j (weObject e)"

section \<open>Configuration\<close>

record Config =
  cfHost :: string
  cfToken :: string
  cfNamespace :: string
  cfCACert :: string
  cfInsecure :: bool

definition inClusterCACertPath :: string where
  "inClusterCACertPath = ''/var/run/secrets/kubernetes.io/serviceaccount/ca.crt''"
definition inClusterTokenPath :: string where
  "inClusterTokenPath = ''/var/run/secrets/kubernetes.io/serviceaccount/token''"
definition inClusterNamespacePath :: string where
  "inClusterNamespacePath = ''/var/run/secrets/kubernetes.io/serviceaccount/namespace''"

definition net_JoinHostPort :: "string \<Rightarrow> string \<Rightarrow> string" where
  "net_JoinHostPort host port = host @ '':'' @ port"

definition InClusterConfig :: "(string \<Rightarrow> string) \<Rightarrow> (string \<Rightarrow> string + string) \<Rightarrow> string + Config" where
  "InClusterConfig getenv readFile =
     (let host = getenv ''KUBERNETES_SERVICE_HOST''; port = getenv ''KUBERNETES_SERVICE_PORT'' in
      if host = '''' \<or> port = '''' then
        Inl ''k8sclient: not running in-cluster (KUBERNETES_SERVICE_HOST/PORT unset)''
      else case readFile inClusterTokenPath of
        Inl err \<Rightarrow> Inl (''k8sclient: reading service account token: '' @ err)
      | Inr token \<Rightarrow>
        (case readFile inClusterCACertPath of
           Inl err \<Rightarrow> Inl (''k8sclient: reading service account CA cert: '' @ err)
         | Inr ca \<Rightarrow>
           (case readFile inClusterNamespacePath of
              Inl err \<Rightarrow> Inl (''k8sclient: reading service account namespace: '' @ err)
            | Inr ns \<Rightarrow>
                Inr \<lparr>cfHost = ''https://'' @ net_JoinHostPort host port, cfToken = token,
                     cfNamespace = ns, cfCACert = ca, cfInsecure = False\<rparr>)))"

text \<open>\<open>clRootCAs\<close> is the PEM text the trust pool was built from, or none for the system's.\<close>

record Client =
  clCfg :: Config
  clInsecureSkipVerify :: bool
  clRootCAs :: "string option"

definition clientNew :: "(string \<Rightarrow> bool) \<Rightarrow> Config \<Rightarrow> string + Client" where
  "clientNew appendCertsFromPEM cfg =
     (if length (cfCACert cfg) > 0 then
        if \<not> appendCertsFromPEM (cfCACert cfg) then Inl ''k8sclient: no certificates parsed from CACert''
        else Inr \<lparr>clCfg = cfg, clInsecureSkipVerify = cfInsecure cfg, clRootCAs = Some (cfCACert cfg)\<rparr>
      else Inr \<lparr>clCfg = cfg, clInsecureSkipVerify = cfInsecure cfg, clRootCAs = None\<rparr>)"

section \<open>URLs\<close>

text \<open>\<^verbatim>\<open>net/url\<close>: the escaping of a query value, of a path and of a host.\<close>

definition unreserved :: "char \<Rightarrow> bool" where
  "unreserved c \<longleftrightarrow> c \<in> set ''abcdefghijklmnopqrstuvwxyzABCDEFGHIJKLMNOPQRSTUVWXYZ0123456789-_.~''"

definition upperHex :: "nat \<Rightarrow> char" where
  "upperHex n = ''0123456789ABCDEF'' ! n"

definition percent :: "char \<Rightarrow> string" where
  "percent c = (let n = of_char c :: nat in [CHR ''%'', upperHex (n div 16), upperHex (n mod 16)])"

definition escapeWith :: "(char \<Rightarrow> bool) \<Rightarrow> string \<Rightarrow> string" where
  "escapeWith keep s = concat (map (\<lambda>c. if keep c then [c] else percent c) s)"

definition pathEscape :: "string \<Rightarrow> string" where
  "pathEscape = escapeWith (\<lambda>c. unreserved c \<or> c \<in> set ''$&+,/:;=@'')"

definition hostEscape :: "string \<Rightarrow> string" where
  "hostEscape = escapeWith (\<lambda>c. unreserved c \<or> c \<in> set ''!$&()*+,;=:[]<>'' \<or> c = CHR 0x27 \<or> c = CHR 0x22)"

definition queryEscape :: "string \<Rightarrow> string" where
  "queryEscape s = concat (map (\<lambda>c. if c = CHR '' '' then ''+'' else if unreserved c then [c] else percent c) s)"

text \<open>\<^verbatim>\<open>Values.Encode\<close> on a list of parameters already sorted by name.\<close>

fun encodeSorted :: "(string \<times> string) list \<Rightarrow> string" where
  "encodeSorted [] = ''''"
| "encodeSorted [(k, v)] = queryEscape k @ ''='' @ queryEscape v"
| "encodeSorted ((k, v) # kv # kvs) = queryEscape k @ ''='' @ queryEscape v @ ''&'' @ encodeSorted (kv # kvs)"

definition urlString :: "string \<Rightarrow> string \<Rightarrow> string \<Rightarrow> string \<Rightarrow> string" where
  "urlString scheme host path rawQuery =
     (if scheme \<noteq> '''' then scheme @ '':'' else '''')
     @ (if scheme \<noteq> '''' \<or> host \<noteq> '''' then (if host \<noteq> '''' \<or> path \<noteq> '''' then ''//'' else '''') @ hostEscape host else '''')
     @ pathEscape path
     @ (if rawQuery \<noteq> '''' then ''?'' @ rawQuery else '''')"

text \<open>The query parameters in the order \<^verbatim>\<open>Encode\<close> writes them.\<close>

definition watchQuery :: "bool \<Rightarrow> string \<Rightarrow> (string \<times> string) list" where
  "watchQuery watch resourceVersion =
     (if watch then
        [(''allowWatchBookmarks'', ''true'')]
        @ (if resourceVersion \<noteq> '''' then [(''resourceVersion'', resourceVersion)] else [])
        @ [(''timeoutSeconds'', ''300''), (''watch'', ''true'')]
      else [])"

definition podsURL :: "(string \<Rightarrow> (string \<times> string) option) \<Rightarrow> Client \<Rightarrow> bool \<Rightarrow> string \<Rightarrow> string" where
  "podsURL urlParse c watch resourceVersion =
     (let (scheme, host) =
            (case urlParse (cfHost (clCfg c)) of
               Some base \<Rightarrow> base
             | None \<Rightarrow> (''https'', cfHost (clCfg c)));
          path = ''/api/v1/namespaces/'' @ cfNamespace (clCfg c) @ ''/pods''
      in urlString scheme host path (encodeSorted (watchQuery watch resourceVersion)))"

section \<open>Requests\<close>

record request =
  rqURL :: string
  rqHeader :: "(string \<times> string) list"

datatype reply = DoError string | Response int string "string option"

text \<open>
  A response has a status code, the bytes of its body, and the error that ends reading the
  body (none for a regular end of file).  \<open>badURL\<close> is the error \<^verbatim>\<open>http.NewRequest\<close> reports for a URL.
\<close>

record net =
  nJson :: json
  nUrlParse :: "string \<Rightarrow> (string \<times> string) option"
  nBadURL :: "string \<Rightarrow> string option"

definition newRequest :: "net \<Rightarrow> Client \<Rightarrow> string \<Rightarrow> string + request" where
  "newRequest n c rawURL =
     (case nBadURL n rawURL of
        Some err \<Rightarrow> Inl err
      | None \<Rightarrow>
          Inr \<lparr>rqURL = rawURL,
               rqHeader = (if cfToken (clCfg c) \<noteq> '''' then [(''Authorization'', ''Bearer '' @ cfToken (clCfg c))] else [])
                 @ [(''Accept'', ''application/json'')]\<rparr>)"

record APIError =
  aeStatusCode :: int
  aeBody :: string

definition APIErrorText :: "APIError \<Rightarrow> string" where
  "APIErrorText e = ''k8sclient: API server returned '' @ intString (aeStatusCode e) @ '': '' @ aeBody e"

definition Gone :: "APIError \<Rightarrow> bool" where
  "Gone e \<longleftrightarrow> aeStatusCode e = 410"

datatype clientError = IsAPIError APIError | EOF | OtherError string

definition clientList :: "net \<Rightarrow> Client \<Rightarrow> (request \<Rightarrow> reply) \<Rightarrow> clientError + PodList" where
  "clientList n c serve =
     (case newRequest n c (podsURL (nUrlParse n) c False '''') of
        Inl err \<Rightarrow> Inl (OtherError err)
      | Inr req \<Rightarrow>
          (case serve req of
             DoError err \<Rightarrow> Inl (OtherError (''k8sclient: list request: '' @ err))
           | Response code body readErr \<Rightarrow>
               if code \<noteq> 200 then Inl (IsAPIError \<lparr>aeStatusCode = code, aeBody = take 4096 body\<rparr>)
               else case decList (nJson n) body readErr of
                      Inl err \<Rightarrow> Inl (OtherError (''k8sclient: decoding list response: '' @ err))
                    | Inr list \<Rightarrow> Inr list))"

section \<open>The watch stream\<close>

text \<open>
  \<^verbatim>\<open>bufio.Scanner\<close> over the body: lines without their terminator (a carriage return before it
  is dropped too), the last one possibly unterminated; a line of 4 MiB or more stops the scan.
\<close>

record WatchStream =
  wsBytes :: string
  wsReadErr :: "string option"

definition maxToken :: nat where
  "maxToken = 4 * 1024 * 1024"

definition dropCR :: "string \<Rightarrow> string" where
  "dropCR s = (if s \<noteq> [] \<and> last s = CHR 0x0D then butlast s else s)"

datatype scanResult = Token string WatchStream | ScanStop "string option"

definition Scan :: "WatchStream \<Rightarrow> scanResult" where
  "Scan w =
     (case indexByte (wsBytes w) (CHR 0x0A) of
        Some i \<Rightarrow>
          if i \<ge> maxToken then ScanStop (Some ''bufio.Scanner: token too long'')
          else Token (dropCR (take i (wsBytes w))) (w\<lparr>wsBytes := drop (Suc i) (wsBytes w)\<rparr>)
      | None \<Rightarrow>
          if length (wsBytes w) \<ge> maxToken then ScanStop (Some ''bufio.Scanner: token too long'')
          else if wsBytes w = [] then ScanStop (wsReadErr w)
          else Token (dropCR (wsBytes w)) (w\<lparr>wsBytes := []\<rparr>))"

definition StreamNext :: "json \<Rightarrow> WatchStream \<Rightarrow> clientError + WatchEvent \<times> WatchStream" where
  "StreamNext j w =
     (case Scan w of
        ScanStop (Some err) \<Rightarrow> Inl (OtherError err)
      | ScanStop None \<Rightarrow> Inl EOF
      | Token line w' \<Rightarrow>
          (case decEvent j line of
             Inl err \<Rightarrow> Inl (OtherError (''k8sclient: decoding watch event: '' @ err))
           | Inr evt \<Rightarrow> Inr (evt, w')))"

definition clientWatch :: "net \<Rightarrow> Client \<Rightarrow> (request \<Rightarrow> reply) \<Rightarrow> string \<Rightarrow> clientError + WatchStream" where
  "clientWatch n c serve resourceVersion =
     (case newRequest n c (podsURL (nUrlParse n) c True resourceVersion) of
        Inl err \<Rightarrow> Inl (OtherError err)
      | Inr req \<Rightarrow>
          (case serve req of
             DoError err \<Rightarrow> Inl (OtherError (''k8sclient: watch request: '' @ err))
           | Response code body readErr \<Rightarrow>
               if code \<noteq> 200 then Inl (IsAPIError \<lparr>aeStatusCode = code, aeBody = take 4096 body\<rparr>)
               else Inr \<lparr>wsBytes = body, wsReadErr = readErr\<rparr>))"

lemma StreamNext_shrinks:
  assumes "StreamNext j w = Inr (evt, w')"
  shows "length (wsBytes w') < length (wsBytes w)"
proof -
  have "\<exists>line. Scan w = Token line w'"
    using assms by (auto simp: StreamNext_def split: scanResult.splits option.splits sum.splits)
  then show ?thesis
    using indexByte_Some [of "wsBytes w" "CHR 0x0A"] by (auto simp: Scan_def split: option.splits if_splits)
qed

section \<open>The list-and-watch loop\<close>

text \<open>
  What the loop does that can be seen from outside: \<open>Listed rv\<close> is a list that succeeded with the
  resource version \<open>rv\<close>, \<open>Watched rv\<close> the call of \<^verbatim>\<open>Watch\<close> with \<open>rv\<close>, whether or not it gets as
  far as a response, \<open>Handled\<close> a call of the handler.
\<close>

datatype act = Listed string | Watched string | Handled WatchEventType ClientPod | Backoff

text \<open>The event loop of \<^verbatim>\<open>watchFrom\<close>: the handler's calls and the error that ends it.\<close>

function watchLoop :: "json \<Rightarrow> WatchStream \<Rightarrow> act list \<times> clientError" where
  "watchLoop j w =
     (case StreamNext j w of
        Inl err \<Rightarrow> ([], err)
      | Inr (evt, w') \<Rightarrow>
          if weType evt = EventError then
            (let st = fst (AsStatus j evt)
             in ([], IsAPIError \<lparr>aeStatusCode = stCode st, aeBody = stMessage st\<rparr>))
          else if weType evt = EventBookmark then watchLoop j w'
          else case AsPod j evt of
            (_, Some err) \<Rightarrow>
              ([], OtherError (''k8sclient: decoding '' @ weType evt @ '' event object: '' @ err))
          | (pod, None) \<Rightarrow>
              (let (acts, err) = watchLoop j w' in (Handled (weType evt) pod # acts, err)))"
  by pat_completeness auto
termination
  by (relation "measure (\<lambda>(j, w). length (wsBytes w))") (auto dest: StreamNext_shrinks)

definition watchFrom :: "net \<Rightarrow> Client \<Rightarrow> (request \<Rightarrow> reply) \<Rightarrow> string \<Rightarrow> act list \<times> clientError" where
  "watchFrom n c serve rv =
     (let (acts, err) = (case clientWatch n c serve rv of
                           Inl err \<Rightarrow> ([], err)
                         | Inr stream \<Rightarrow> watchLoop (nJson n) stream)
      in (Watched rv # acts, err))"

text \<open>
  One iteration of the loop: \<open>rdServe\<close> is the server, \<open>rdCtxErr\<close> and \<open>rdCtxErrAfter\<close> whether
  the context is cancelled at the head of the loop and after the watch, \<open>rdDone\<close> whether it
  is cancelled before the one-second backoff is over.
\<close>

record round =
  rdCtxErr :: bool
  rdServe :: "request \<Rightarrow> reply"
  rdCtxErrAfter :: bool
  rdDone :: bool

datatype outcome = Return "clientError option" | Continue

definition loopBody :: "net \<Rightarrow> Client \<Rightarrow> round \<Rightarrow> act list \<times> outcome" where
  "loopBody n c r =
     (if rdCtxErr r then ([], Return None)
      else case clientList n c (rdServe r) of
        Inl err \<Rightarrow> ([], Return (Some err))
      | Inr list \<Rightarrow>
          (let rv = plResourceVersion list;
               seed = Listed rv # map (Handled EventAdded) (plItems list);
               (acts, err) = watchFrom n c (rdServe r) rv
           in if (case err of IsAPIError e \<Rightarrow> Gone e | _ \<Rightarrow> False) then (seed @ acts, Continue)
              else if rdCtxErrAfter r then (seed @ acts, Return None)
              else if rdDone r then (seed @ acts, Return None)
              else (seed @ acts @ [Backoff], Continue)))"

text \<open>The loop over the given rounds; \<open>Continue\<close> says it is still running after them.\<close>

fun ListAndWatch :: "net \<Rightarrow> Client \<Rightarrow> round list \<Rightarrow> act list \<times> outcome" where
  "ListAndWatch n c [] = ([], Continue)"
| "ListAndWatch n c (r # rs) =
     (case loopBody n c r of
        (acts, Return res) \<Rightarrow> (acts, Return res)
      | (acts, Continue) \<Rightarrow> (let (more, res) = ListAndWatch n c rs in (acts @ more, res)))"

section \<open>Framing\<close>

text \<open>A watch body made of complete lines, and the lines a scanner can take.\<close>

definition frame :: "string list \<Rightarrow> string" where
  "frame ls = concat (map (\<lambda>l. l @ [CHR 0x0A]) ls)"

definition scannable :: "string \<Rightarrow> bool" where
  "scannable l \<longleftrightarrow> CHR 0x0A \<notin> set l \<and> length l < maxToken \<and> dropCR l = l"

lemma indexByte_append: "c \<notin> set l \<Longrightarrow> indexByte (l @ c # s) c = Some (length l)"
  by (induction l) auto

lemma Scan_frame:
  assumes "scannable l"
  shows "Scan \<lparr>wsBytes = frame (l # ls), wsReadErr = e\<rparr> = Token l \<lparr>wsBytes = frame ls, wsReadErr = e\<rparr>"
  using assms indexByte_append [of "CHR 0x0A" l "frame ls"]
  by (simp add: Scan_def frame_def scannable_def)

lemma Scan_frame_nil [simp]: "Scan \<lparr>wsBytes = frame [], wsReadErr = e\<rparr> = ScanStop e"
  by (simp add: Scan_def frame_def maxToken_def)

text \<open>The events of the lines up to the first that does not decode, and those of them the
  handler can be given or skip.\<close>

definition decoded :: "json \<Rightarrow> string list \<Rightarrow> WatchEvent list" where
  "decoded j ls = map (\<lambda>l. projr (decEvent j l)) (takeWhile (\<lambda>l. \<not> isl (decEvent j l)) ls)"

definition usable :: "json \<Rightarrow> WatchEvent \<Rightarrow> bool" where
  "usable j e \<longleftrightarrow> weType e \<noteq> EventError \<and> (weType e = EventBookmark \<or> snd (AsPod j e) = None)"

definition delivered :: "json \<Rightarrow> string list \<Rightarrow> act list" where
  "delivered j ls = map (\<lambda>e. Handled (weType e) (fst (AsPod j e)))
     (filter (\<lambda>e. weType e \<noteq> EventBookmark) (takeWhile (usable j) (decoded j ls)))"

lemma decoded_simps [simp]:
  "decoded j [] = []"
  "decEvent j l = Inl err \<Longrightarrow> decoded j (l # ls) = []"
  "decEvent j l = Inr e \<Longrightarrow> decoded j (l # ls) = e # decoded j ls"
  by (simp_all add: decoded_def)

lemmas [simp del] = watchLoop.simps

lemma StreamNext_frame:
  assumes "scannable l"
  shows "StreamNext j \<lparr>wsBytes = frame (l # ls), wsReadErr = e\<rparr> =
     (case decEvent j l of
        Inl err \<Rightarrow> Inl (OtherError (''k8sclient: decoding watch event: '' @ err))
      | Inr evt \<Rightarrow> Inr (evt, \<lparr>wsBytes = frame ls, wsReadErr = e\<rparr>))"
  by (simp add: StreamNext_def Scan_frame [OF assms])

lemma watchLoop_stop:
  assumes "scannable l" "\<And>e. decEvent j l = Inr e \<Longrightarrow> \<not> usable j e"
  shows "fst (watchLoop j \<lparr>wsBytes = frame (l # ls), wsReadErr = re\<rparr>) = []"
proof (cases "decEvent j l")
  case (Inl err)
  then show ?thesis by (subst watchLoop.simps) (simp add: StreamNext_frame [OF assms(1)])
next
  case (Inr e)
  have bad: "\<not> usable j e" by (rule assms(2) [OF Inr])
  obtain pod r where "AsPod j e = (pod, r)" by fastforce
  with Inr bad show ?thesis
    by (subst watchLoop.simps) (auto simp: StreamNext_frame [OF assms(1)] usable_def Let_def split: option.splits)
qed

lemma watchLoop_usable:
  assumes "scannable l" "decEvent j l = Inr e" "usable j e"
  shows "watchLoop j \<lparr>wsBytes = frame (l # ls), wsReadErr = re\<rparr> =
     ((if weType e = EventBookmark then [] else [Handled (weType e) (fst (AsPod j e))])
        @ fst (watchLoop j \<lparr>wsBytes = frame ls, wsReadErr = re\<rparr>),
      snd (watchLoop j \<lparr>wsBytes = frame ls, wsReadErr = re\<rparr>))"
proof -
  obtain pod r where "AsPod j e = (pod, r)" by fastforce
  with assms(2,3) show ?thesis
    by (subst watchLoop.simps) (auto simp: StreamNext_frame [OF assms(1)] usable_def case_prod_beta)
qed

lemma watchLoop_delivered:
  assumes "list_all scannable ls"
  shows "fst (watchLoop j \<lparr>wsBytes = frame ls, wsReadErr = re\<rparr>) = delivered j ls"
  using assms
proof (induction ls)
  case Nil
  then show ?case by (subst watchLoop.simps) (simp add: StreamNext_def delivered_def split: option.split)
next
  case (Cons l ls)
  then have l: "scannable l" by simp
  show ?case
  proof (cases "\<exists>e. decEvent j l = Inr e \<and> usable j e")
    case True
    then obtain e where e: "decEvent j l = Inr e" "usable j e" by blast
    with Cons watchLoop_usable [OF l e] show ?thesis by (simp add: delivered_def)
  next
    case False
    then have "delivered j (l # ls) = []" by (cases "decEvent j l") (auto simp: delivered_def)
    with watchLoop_stop [OF l] False show ?thesis by metis
  qed
qed

text \<open>
  C23.  The handler sees the stream.  On a watch body of newline-terminated JSON lines, whatever
  they decode to, the handler is called once, in order, for each event before the first one
  that cannot be used (undecodable, or an ERROR), with bookmarks left out.  So neither an ERROR
  nor a BOOKMARK ever reaches the handler.
\<close>

theorem watch_handles_stream:
  assumes "list_all scannable ls"
  shows "fst (watchLoop j \<lparr>wsBytes = frame ls, wsReadErr = re\<rparr>) = delivered j ls"
  by (rule watchLoop_delivered [OF assms])

definition demoMeta :: ObjectMeta where
  "demoMeta = \<lparr>mdName = ''web'', mdNamespace = ''default'', mdUID = ''u'', mdResourceVersion = ''12'',
     mdCreationTimestamp = zeroTime\<rparr>"

definition demoClientPod :: ClientPod where
  "demoClientPod = \<lparr>cpMetadata = demoMeta, cpStatus = \<lparr>psPhase = ''Running'', psContainerStatuses = []\<rparr>\<rparr>"

text \<open>A decoder for a toy notation in which a line is its own event type.\<close>

definition demoJson :: json where
  "demoJson =
     \<lparr>decList = (\<lambda>s _. if s = ''list'' then Inr \<lparr>plResourceVersion = ''7'', plItems = [demoClientPod]\<rparr> else Inl ''bad list''),
      decEvent = (\<lambda>s. if s = ''garbage'' then Inl ''bad line'' else Inr \<lparr>weType = s, weObject = ''gone''\<rparr>),
      decPod = (\<lambda>s. (demoClientPod, None)),
      decStatus = (\<lambda>s. (\<lparr>stCode = (if s = ''gone'' then 410 else 500), stReason = ''Expired'', stMessage = s\<rparr>, None))\<rparr>"

theorem watch_handles_stream_witness:
  "fst (watchLoop demoJson \<lparr>wsBytes = frame [''ADDED'', ''BOOKMARK'', ''DELETED'', ''ERROR'', ''ADDED''], wsReadErr = None\<rparr>)
     = [Handled ''ADDED'' demoClientPod, Handled ''DELETED'' demoClientPod]"
proof -
  have "list_all scannable [''ADDED'', ''BOOKMARK'', ''DELETED'', ''ERROR'', ''ADDED'']"
    by (simp add: scannable_def maxToken_def dropCR_def)
  from watch_handles_stream [OF this, of demoJson None] show ?thesis
    by (simp add: delivered_def demoJson_def usable_def AsPod_def const_defs)
qed

section \<open>The loop\<close>

text \<open>Requests of a trace.\<close>

fun isRequest :: "act \<Rightarrow> bool" where
  "isRequest (Listed rv) \<longleftrightarrow> True"
| "isRequest (Watched rv) \<longleftrightarrow> True"
| "isRequest _ \<longleftrightarrow> False"

lemma watchLoop_handled: "set (fst (watchLoop j w)) \<subseteq> {Handled t pod |t pod. t \<noteq> EventError \<and> t \<noteq> EventBookmark}"
proof (induction j w rule: watchLoop.induct)
  case (1 j w)
  show ?case
  proof (cases "StreamNext j w")
    case (Inl err)
    then show ?thesis by (subst watchLoop.simps) simp
  next
    case (Inr ew)
    obtain e w' where ew: "ew = (e, w')" by (cases ew)
    obtain pod r where pod: "AsPod j e = (pod, r)" by fastforce
    show ?thesis
      using 1 [OF Inr ew [symmetric]] Inr ew pod
      by (subst watchLoop.simps) (auto simp: Let_def case_prod_beta split: option.splits)
  qed
qed

lemma watchFrom_requests: "filter isRequest (fst (watchFrom n c serve rv)) = [Watched rv]"
proof -
  have "filter isRequest (fst (watchLoop (nJson n) w)) = []" for w
    using watchLoop_handled [of "nJson n" w] by (auto simp: filter_empty_conv)
  then show ?thesis by (simp add: watchFrom_def case_prod_beta split: sum.split)
qed

lemma loopBody_requests:
  "filter isRequest (fst (loopBody n c r)) =
     (case clientList n c (rdServe r) of
        Inr list \<Rightarrow> if rdCtxErr r then [] else [Listed (plResourceVersion list), Watched (plResourceVersion list)]
      | Inl err \<Rightarrow> [])"
proof -
  have "filter isRequest (map (Handled t) pods) = []" for t pods by (induction pods) auto
  then show ?thesis
    by (simp add: loopBody_def Let_def case_prod_beta watchFrom_requests split: sum.split)
qed

text \<open>
  C26.  Every watch starts from its list.  Over any number of rounds and whatever the server
  answers, the requests alternate: a successful list, then a watch from exactly the
  resource version of that list.  The loop never resumes a watch from a later version.
\<close>

theorem watch_follows_list:
  "\<exists>rvs. filter isRequest (fst (ListAndWatch n c rs)) = concat (map (\<lambda>rv. [Listed rv, Watched rv]) rvs)
     \<and> length rvs \<le> length rs"
proof (induction rs)
  case (Cons r rs)
  obtain acts out where body: "loopBody n c r = (acts, out)" by fastforce
  obtain rvs where rvs: "filter isRequest (fst (ListAndWatch n c rs)) = concat (map (\<lambda>rv. [Listed rv, Watched rv]) rvs)"
    "length rvs \<le> length rs"
    using Cons by blast
  have one: "\<exists>rv. filter isRequest acts = concat (map (\<lambda>rv. [Listed rv, Watched rv]) rv) \<and> length rv \<le> 1"
    using loopBody_requests [of n c r] body
    by (auto split: sum.splits if_splits intro: exI [of _ "[]"] exI [of _ "[plResourceVersion _]"])
  then obtain rv where rv: "filter isRequest acts = concat (map (\<lambda>rv. [Listed rv, Watched rv]) rv)" "length rv \<le> 1"
    by blast
  show ?case
  proof (cases out)
    case (Return res)
    then show ?thesis using body rv by (intro exI [of _ rv]) auto
  next
    case Continue
    then show ?thesis using body rv rvs
      by (intro exI [of _ "rv @ rvs"]) (auto simp: case_prod_beta)
  qed
qed simp

text \<open>
  C25.  Why the loop ends.  It returns an error only when a list request failed, and then that
  error; it returns without one only when the context was cancelled.  A failing watch never
  ends it.
\<close>

theorem ListAndWatch_returns:
  assumes "snd (ListAndWatch n c rs) = Return res"
  shows "\<exists>r \<in> set rs. (case res of
       Some err \<Rightarrow> \<not> rdCtxErr r \<and> clientList n c (rdServe r) = Inl err
     | None \<Rightarrow> rdCtxErr r \<or> rdCtxErrAfter r \<or> rdDone r)"
  using assms
proof (induction rs)
  case (Cons r rs)
  obtain acts out where body: "loopBody n c r = (acts, out)" by fastforce
  show ?case
  proof (cases out)
    case (Return res')
    then have "res' = res" using Cons.prems body by simp
    then have "case res of Some err \<Rightarrow> \<not> rdCtxErr r \<and> clientList n c (rdServe r) = Inl err
       | None \<Rightarrow> rdCtxErr r \<or> rdCtxErrAfter r \<or> rdDone r"
      using body Return by (auto simp: loopBody_def Let_def case_prod_beta split: if_splits sum.splits)
    then show ?thesis by auto
  next
    case Continue
    then have "snd (ListAndWatch n c rs) = Return res" using Cons.prems body by (simp add: case_prod_beta)
    from Cons.IH [OF this] show ?thesis by auto
  qed
qed simp

definition demoClient :: Client where
  "demoClient = \<lparr>clCfg = \<lparr>cfHost = ''https://10.0.0.1:443'', cfToken = '''', cfNamespace = ''default'',
     cfCACert = '''', cfInsecure = False\<rparr>, clInsecureSkipVerify = False, clRootCAs = None\<rparr>"

definition demoNet :: net where
  "demoNet = \<lparr>nJson = demoJson, nUrlParse = (\<lambda>_. Some (''https'', ''10.0.0.1:443'')), nBadURL = (\<lambda>_. None)\<rparr>"

abbreviation demoListURL :: string where
  "demoListURL \<equiv> podsURL (nUrlParse demoNet) demoClient False ''''"

lemma demoListURL_eq: "demoListURL = ''https://10.0.0.1:443/api/v1/namespaces/default/pods''"
  by (simp add: podsURL_def demoNet_def demoClient_def watchQuery_def urlString_def hostEscape_def
      pathEscape_def escapeWith_def unreserved_def)

definition demoServer :: "string list \<Rightarrow> request \<Rightarrow> reply" where
  "demoServer ls req = (if rqURL req = demoListURL then Response 200 ''list'' None else Response 200 (frame ls) None)"

definition demoRound :: "string list \<Rightarrow> round" where
  "demoRound ls = \<lparr>rdCtxErr = False, rdServe = demoServer ls, rdCtxErrAfter = False, rdDone = False\<rparr>"

theorem ListAndWatch_returns_witness:
  "\<exists>r \<in> set [\<lparr>rdCtxErr = False, rdServe = (\<lambda>_. DoError ''refused''), rdCtxErrAfter = False, rdDone = False\<rparr>].
     clientList demoNet demoClient (rdServe r) = Inl (OtherError ''k8sclient: list request: refused'')"
proof -
  let ?r = "\<lparr>rdCtxErr = False, rdServe = (\<lambda>_. DoError ''refused''), rdCtxErrAfter = False, rdDone = False\<rparr> :: round"
  have "snd (ListAndWatch demoNet demoClient [?r]) = Return (Some (OtherError ''k8sclient: list request: refused''))"
    by (simp add: loopBody_def clientList_def newRequest_def demoNet_def)
  from ListAndWatch_returns [OF this] show ?thesis by simp
qed

lemma watchLoop_gone:
  assumes "list_all scannable (ls @ [l])" "\<forall>x \<in> set ls. \<exists>e. decEvent j x = Inr e \<and> usable j e"
    and "decEvent j l = Inr e" "weType e = EventError"
  shows "snd (watchLoop j \<lparr>wsBytes = frame (ls @ [l]), wsReadErr = re\<rparr>) =
     IsAPIError \<lparr>aeStatusCode = stCode (fst (AsStatus j e)), aeBody = stMessage (fst (AsStatus j e))\<rparr>"
  using assms(1,2)
proof (induction ls)
  case Nil
  then show ?case using assms(3,4)
    by (subst watchLoop.simps) (simp add: StreamNext_frame Let_def)
next
  case (Cons x ls)
  then obtain ex where x: "scannable x" "decEvent j x = Inr ex" "usable j ex" by auto
  then show ?case using Cons watchLoop_usable [OF x, of "ls @ [l]" re] by simp
qed

text \<open>
  C24.  Recovery from 410 Gone.  When the list succeeds and the watch sends usable events and then
  an ERROR carrying status 410, the round hands the handler the list and those events and the
  loop goes straight on to the next round, which lists again: there is no backoff and
  nothing is returned to the caller.
\<close>

theorem gone_relists:
  assumes "\<not> rdCtxErr r" "clientList n c (rdServe r) = Inr list"
    and "clientWatch n c (rdServe r) (plResourceVersion list) = Inr \<lparr>wsBytes = frame (ls @ [l]), wsReadErr = re\<rparr>"
    and "list_all scannable (ls @ [l])" "\<forall>x \<in> set ls. \<exists>e. decEvent (nJson n) x = Inr e \<and> usable (nJson n) e"
    and "decEvent (nJson n) l = Inr e" "weType e = EventError" "stCode (fst (AsStatus (nJson n) e)) = 410"
  shows "ListAndWatch n c (r # rs) =
     (Listed (plResourceVersion list) # map (Handled EventAdded) (plItems list)
        @ Watched (plResourceVersion list) # delivered (nJson n) (ls @ [l])
        @ fst (ListAndWatch n c rs),
      snd (ListAndWatch n c rs))"
proof -
  let ?w = "\<lparr>wsBytes = frame (ls @ [l]), wsReadErr = re\<rparr>"
  have "\<exists>e. snd (watchLoop (nJson n) ?w) = IsAPIError e \<and> Gone e"
    using watchLoop_gone [OF assms(4-7), of re] assms(8) by (simp add: Gone_def)
  moreover have "fst (watchLoop (nJson n) ?w) = delivered (nJson n) (ls @ [l])"
    by (rule watchLoop_delivered [OF assms(4)])
  ultimately have "loopBody n c r =
      (Listed (plResourceVersion list) # map (Handled EventAdded) (plItems list)
        @ Watched (plResourceVersion list) # delivered (nJson n) (ls @ [l]), Continue)"
    using assms(1-3) by (auto simp: loopBody_def watchFrom_def Let_def case_prod_beta)
  then show ?thesis by (simp add: case_prod_beta)
qed

theorem gone_relists_witness:
  "ListAndWatch demoNet demoClient [demoRound [''MODIFIED'', ''BOOKMARK'', ''ERROR'']] =
     ([Listed ''7'', Handled ''ADDED'' demoClientPod, Watched ''7'', Handled ''MODIFIED'' demoClientPod], Continue)"
proof -
  let ?list = "\<lparr>plResourceVersion = ''7'', plItems = [demoClientPod]\<rparr>"
  have req: "newRequest demoNet demoClient u = Inr \<lparr>rqURL = u, rqHeader = [(''Accept'', ''application/json'')]\<rparr>" for u
    by (simp add: newRequest_def demoNet_def demoClient_def)
  have list: "clientList demoNet demoClient (rdServe (demoRound [''MODIFIED'', ''BOOKMARK'', ''ERROR''])) = Inr ?list"
    by (simp add: clientList_def newRequest_def demoRound_def demoServer_def demoNet_def demoJson_def)
  have "podsURL (nUrlParse demoNet) demoClient True ''7'' \<noteq> demoListURL"
    unfolding demoListURL_eq
    by (simp add: podsURL_def demoNet_def demoClient_def watchQuery_def urlString_def hostEscape_def
      pathEscape_def escapeWith_def unreserved_def queryEscape_def)
  then have watch: "clientWatch demoNet demoClient (rdServe (demoRound [''MODIFIED'', ''BOOKMARK'', ''ERROR''])) (plResourceVersion ?list)
      = Inr \<lparr>wsBytes = frame ([''MODIFIED'', ''BOOKMARK''] @ [''ERROR'']), wsReadErr = None\<rparr>"
    by (simp add: clientWatch_def req demoRound_def demoServer_def)
  have "list_all scannable ([''MODIFIED'', ''BOOKMARK''] @ [''ERROR''])"
    "\<forall>x \<in> set [''MODIFIED'', ''BOOKMARK'']. \<exists>e. decEvent (nJson demoNet) x = Inr e \<and> usable (nJson demoNet) e"
    "decEvent (nJson demoNet) ''ERROR'' = Inr \<lparr>weType = ''ERROR'', weObject = ''gone''\<rparr>"
    "weType \<lparr>weType = ''ERROR'', weObject = ''gone''\<rparr> = EventError"
    "stCode (fst (AsStatus (nJson demoNet) \<lparr>weType = ''ERROR'', weObject = ''gone''\<rparr>)) = 410"
    by (simp_all add: scannable_def maxToken_def dropCR_def demoNet_def demoJson_def usable_def AsPod_def
        AsStatus_def const_defs)
  from gone_relists [OF _ list watch this, of "[]"] have "ListAndWatch demoNet demoClient [demoRound [''MODIFIED'', ''BOOKMARK'', ''ERROR'']] =
      (Listed ''7'' # map (Handled EventAdded) [demoClientPod]
        @ Watched ''7'' # delivered demoJson ([''MODIFIED'', ''BOOKMARK''] @ [''ERROR'']), Continue)"
    by (simp add: demoRound_def demoNet_def del: ListAndWatch.simps(2))
  then show ?thesis by (simp add: delivered_def demoJson_def usable_def AsPod_def const_defs del: ListAndWatch.simps)
qed

section \<open>What the server reads back from the URL\<close>

text \<open>The server's side of query escaping.\<close>

definition unhex :: "char \<Rightarrow> nat" where
  "unhex c = (let n = of_char c :: nat in if n \<ge> 65 then n - 55 else n - 48)"

fun queryUnescape :: "string \<Rightarrow> string" where
  "queryUnescape [] = []"
| "queryUnescape (c # s) =
     (if c = CHR ''+'' then CHR '' '' # queryUnescape s
      else if c = CHR ''%'' then
        (case s of h # l # rest \<Rightarrow> char_of (16 * unhex h + unhex l) # queryUnescape rest | _ \<Rightarrow> [])
      else c # queryUnescape s)"

lemma unhex_upperHex: "n < 16 \<Longrightarrow> unhex (upperHex n) = n"
proof -
  have "\<forall>n \<in> set [0..<16]. unhex (upperHex n) = n" by code_simp
  then show "n < 16 \<Longrightarrow> unhex (upperHex n) = n" by simp
qed

lemma queryUnescape_percent: "queryUnescape (percent c @ s) = c # queryUnescape s"
proof -
  have "(of_char c :: nat) div 16 < 16" by (rule less_mult_imp_div_less) simp
  then have "16 * unhex (upperHex (of_char c div 16)) + unhex (upperHex (of_char c mod 16)) = of_char c"
    by (simp add: unhex_upperHex)
  then show ?thesis by (simp add: percent_def Let_def del: of_char_def)
qed

lemma queryUnescape_escape: "queryUnescape (queryEscape s @ t) = s @ queryUnescape t"
proof (induction s)
  case (Cons c s)
  have plus: "\<not> unreserved (CHR ''+'')" "\<not> unreserved (CHR ''%'')" by (simp_all add: unreserved_def)
  have q: "queryEscape (c # s) = (if c = CHR '' '' then ''+'' else if unreserved c then [c] else percent c) @ queryEscape s"
    by (simp add: queryEscape_def)
  have "queryUnescape (c # u) = c # queryUnescape u" if "unreserved c" for u
    using that plus by (cases "c = CHR ''+''"; cases "c = CHR ''%''") auto
  then show ?case using Cons by (simp add: q queryUnescape_percent)
qed (simp add: queryEscape_def)

text \<open>Splitting a query at its ampersands, and each parameter at its first equals sign.\<close>

fun splitAmp :: "string \<Rightarrow> string list" where
  "splitAmp [] = [[]]"
| "splitAmp (c # s) = (if c = CHR ''&'' then [] # splitAmp s else (c # hd (splitAmp s)) # tl (splitAmp s))"

definition parseParam :: "string \<Rightarrow> string \<times> string" where
  "parseParam s = (queryUnescape (takeWhile (\<lambda>c. c \<noteq> CHR ''='') s),
     queryUnescape (tl (dropWhile (\<lambda>c. c \<noteq> CHR ''='') s)))"

definition parseQuery :: "string \<Rightarrow> (string \<times> string) list" where
  "parseQuery q = (if q = [] then [] else map parseParam (splitAmp q))"

lemma splitAmp_plain: "CHR ''&'' \<notin> set x \<Longrightarrow> splitAmp x = [x]"
  by (induction x) auto

lemma splitAmp_append: "CHR ''&'' \<notin> set x \<Longrightarrow> splitAmp (x @ CHR ''&'' # y) = x # splitAmp y"
  by (induction x) auto

lemma upperHex_unreserved: "n < 16 \<Longrightarrow> unreserved (upperHex n)"
proof -
  have "\<forall>n \<in> set [0..<16]. unreserved (upperHex n)" by code_simp
  then show "n < 16 \<Longrightarrow> unreserved (upperHex n)" by simp
qed

lemma percent_chars: "set (percent c) \<subseteq> {x. unreserved x \<or> x = CHR ''%''}"
proof -
  have "(of_char c :: nat) div 16 < 16" by (rule less_mult_imp_div_less) simp
  then show ?thesis by (simp add: percent_def Let_def upperHex_unreserved del: of_char_def)
qed

lemma queryEscape_chars: "set (queryEscape s) \<subseteq> {x. unreserved x \<or> x = CHR ''%'' \<or> x = CHR ''+''}"
proof (induction s)
  case (Cons c s)
  then show ?case using percent_chars [of c] by (auto simp: queryEscape_def)
qed (simp add: queryEscape_def)

lemma separators_reserved: "\<not> unreserved (CHR ''&'')" "\<not> unreserved (CHR ''='')" "\<not> unreserved (CHR ''?'')"
  by (simp_all add: unreserved_def)

lemma queryEscape_no_separator: "CHR ''&'' \<notin> set (queryEscape s)" "CHR ''='' \<notin> set (queryEscape s)"
  using queryEscape_chars [of s] separators_reserved by auto

lemma parseParam_encoded: "parseParam (queryEscape k @ CHR ''='' # queryEscape v) = (k, v)"
proof -
  have ne: "\<forall>c \<in> set (queryEscape k). c \<noteq> CHR ''=''" using queryEscape_no_separator by metis
  have "takeWhile (\<lambda>c. c \<noteq> CHR ''='') (queryEscape k @ CHR ''='' # queryEscape v) = queryEscape k"
    "dropWhile (\<lambda>c. c \<noteq> CHR ''='') (queryEscape k @ CHR ''='' # queryEscape v) = CHR ''='' # queryEscape v"
    using ne by simp_all
  then show ?thesis
    using queryUnescape_escape [of k "[]"] queryUnescape_escape [of v "[]"] by (simp add: parseParam_def)
qed

lemma splitAmp_encoded:
  "map parseParam (splitAmp (encodeSorted (kv # kvs))) = kv # kvs"
proof (induction kvs arbitrary: kv)
  case Nil
  obtain k v where "kv = (k, v)" by (cases kv)
  then show ?case by (simp add: splitAmp_plain queryEscape_no_separator parseParam_encoded)
next
  case (Cons kv' kvs)
  obtain k v where kv: "kv = (k, v)" by (cases kv)
  let ?p = "queryEscape k @ CHR ''='' # queryEscape v"
  have "encodeSorted (kv # kv' # kvs) = ?p @ CHR ''&'' # encodeSorted (kv' # kvs)"
    by (simp add: kv)
  moreover have "CHR ''&'' \<notin> set ?p" by (simp add: queryEscape_no_separator)
  ultimately have "splitAmp (encodeSorted (kv # kv' # kvs)) = ?p # splitAmp (encodeSorted (kv' # kvs))"
    using splitAmp_append [of ?p "encodeSorted (kv' # kvs)"] by argo
  then show ?case using Cons [of kv'] by (simp only: list.map parseParam_encoded kv)
qed

lemma parseQuery_encoded: "parseQuery (encodeSorted kvs) = kvs"
proof (cases kvs)
  case (Cons kv kvs')
  have "encodeSorted (kv # kvs') \<noteq> []" by (cases kv; cases kvs') auto
  then show ?thesis using Cons splitAmp_encoded by (simp add: parseQuery_def)
qed (simp add: parseQuery_def)

lemma escapeWith_no_mark: "\<not> keep (CHR ''?'') \<Longrightarrow> CHR ''?'' \<notin> set (escapeWith keep s)"
proof (induction s)
  case (Cons c s)
  then show ?case using percent_chars [of c] separators_reserved(3) by (auto simp: escapeWith_def)
qed (simp add: escapeWith_def)

lemma after_mark:
  assumes "m \<notin> set pre"
  shows "tl (dropWhile (\<lambda>x. x \<noteq> m) pre) = []" "tl (dropWhile (\<lambda>x. x \<noteq> m) (pre @ m # q)) = q"
  using assms by (induction pre) auto

lemma urlString_parts:
  assumes "CHR ''?'' \<notin> set scheme"
  shows "tl (dropWhile (\<lambda>c. c \<noteq> CHR ''?'') (urlString scheme host path q)) = q"
proof -
  have keep: "CHR ''?'' \<notin> set (hostEscape host)" "CHR ''?'' \<notin> set (pathEscape path)"
    unfolding hostEscape_def pathEscape_def
    by (rule escapeWith_no_mark; simp add: separators_reserved)+
  obtain pre where pre: "urlString scheme host path q = pre @ (if q \<noteq> [] then CHR ''?'' # q else [])"
    "CHR ''?'' \<notin> set pre"
  proof
    show "urlString scheme host path q = urlString scheme host path [] @ (if q \<noteq> [] then CHR ''?'' # q else [])"
      by (simp add: urlString_def)
    show "CHR ''?'' \<notin> set (urlString scheme host path [])" using keep assms by (auto simp: urlString_def)
  qed
  then show ?thesis by (cases "q = []") (simp_all add: after_mark)
qed

text \<open>
  C27.  The URL round trip.  Whatever bytes the resource version holds, the query the server reads
  from the request URL is this list of parameters: none for a list, and for a watch, in the order
  of their names, the request for bookmarks, the resource version as it was given (left out when
  it is empty), a timeout of 300 seconds and the watch itself.
\<close>

theorem podsURL_roundtrip:
  assumes "\<forall>scheme host. urlParse (cfHost (clCfg c)) = Some (scheme, host) \<longrightarrow> CHR ''?'' \<notin> set scheme"
  shows "parseQuery (tl (dropWhile (\<lambda>x. x \<noteq> CHR ''?'') (podsURL urlParse c False rv))) = [] \<and>
   parseQuery (tl (dropWhile (\<lambda>x. x \<noteq> CHR ''?'') (podsURL urlParse c True rv))) =
     [(''allowWatchBookmarks'', ''true'')] @ (if rv = '''' then [] else [(''resourceVersion'', rv)]) @
     [(''timeoutSeconds'', ''300''), (''watch'', ''true'')]"
proof -
  obtain scheme host where base:
    "(case urlParse (cfHost (clCfg c)) of Some base \<Rightarrow> base | None \<Rightarrow> (''https'', cfHost (clCfg c))) = (scheme, host)"
    by fastforce
  then have ok: "CHR ''?'' \<notin> set scheme" using assms by (auto split: option.splits)
  have "podsURL urlParse c watch rv = urlString scheme host (''/api/v1/namespaces/'' @ cfNamespace (clCfg c) @ ''/pods'')
      (encodeSorted (watchQuery watch rv))" for watch
    unfolding podsURL_def base by (simp only: Let_def prod.case)
  then show ?thesis
    by (simp only: urlString_parts [OF ok] parseQuery_encoded) (simp add: watchQuery_def)
qed

theorem podsURL_roundtrip_witness:
  "parseQuery (tl (dropWhile (\<lambda>x. x \<noteq> CHR ''?'') (podsURL (nUrlParse demoNet) demoClient True ''a&b=c?'')))
     = [(''allowWatchBookmarks'', ''true''), (''resourceVersion'', ''a&b=c?''), (''timeoutSeconds'', ''300''), (''watch'', ''true'')]"
proof -
  have "\<forall>scheme host. nUrlParse demoNet (cfHost (clCfg demoClient)) = Some (scheme, host) \<longrightarrow> CHR ''?'' \<notin> set scheme"
    by (simp add: demoNet_def)
  from podsURL_roundtrip [where urlParse = "nUrlParse demoNet" and c = demoClient and rv = "''a&b=c?''", OF this]
  show ?thesis by simp
qed

end
