(* ===== verification/Schedules.thy ===== *)
theory Schedules
  imports Sentinel_Prelude "HOL-Library.Multiset"
begin

text \<open>
  Agents that share a state but keep to their own part of it.  The interface says that an
  agent's step reads and writes only its part; the result is that how the steps of the agents
  interleave does not matter: what each agent does, and what is left in its part of the
  state, only depends on how many steps it took.
\<close>

fun runAll :: "('w \<Rightarrow> 's \<Rightarrow> 'w \<times> 's) \<Rightarrow> ('i \<Rightarrow> 'w) \<Rightarrow> 's \<Rightarrow> 'i list \<Rightarrow> ('i \<Rightarrow> 'w) \<times> 's" where
  "runAll step ws s [] = (ws, s)"
| "runAll step ws s (i # sch) =
     (case step (ws i) s of (w, s) \<Rightarrow> runAll step (ws(i := w)) s sch)"

fun alone :: "('w \<Rightarrow> 's \<Rightarrow> 'w \<times> 's) \<Rightarrow> nat \<Rightarrow> 'w \<Rightarrow> 's \<Rightarrow> 'w \<times> 's" where
  "alone step 0 w s = (w, s)"
| "alone step (Suc n) w s = (case step w s of (w, s) \<Rightarrow> alone step n w s)"

lemma runAll_append:
  "runAll step ws s (xs @ ys) = runAll step (fst (runAll step ws s xs)) (snd (runAll step ws s xs)) ys"
  by (induction xs arbitrary: ws s) (simp_all only: append_Nil append_Cons runAll.simps case_prod_beta fst_conv snd_conv)

lemma alone_add:
  "alone step (m + n) w s = alone step n (fst (alone step m w s)) (snd (alone step m w s))"
  by (induction m arbitrary: w s) (auto split: prod.split)

lemma runAll_replicate:
  "runAll step ws s (replicate n i) =
     (ws(i := fst (alone step n (ws i) s)), snd (alone step n (ws i) s))"
  by (induction n arbitrary: ws s) (auto simp: case_prod_beta)

locale independent_agents =
  fixes step :: "'w \<Rightarrow> 's \<Rightarrow> 'w \<times> 's"
    and ok :: "'i \<Rightarrow> 'w \<Rightarrow> 's \<Rightarrow> bool"
    and agree :: "'i \<Rightarrow> 's \<Rightarrow> 's \<Rightarrow> bool"
    and compatible :: "'i \<Rightarrow> 'i \<Rightarrow> bool"
  assumes agree_refl: "agree i s s"
    and agree_sym: "agree i s t \<Longrightarrow> agree i t s"
    and agree_trans: "agree i s t \<Longrightarrow> agree i t u \<Longrightarrow> agree i s u"
    and ok_agree: "ok i w s \<Longrightarrow> agree i s t \<Longrightarrow> ok i w t"
    and ok_step: "ok i w s \<Longrightarrow> ok i (fst (step w s)) (snd (step w s))"
    and step_local: "ok i w s \<Longrightarrow> agree i s t \<Longrightarrow>
      fst (step w s) = fst (step w t) \<and> agree i (snd (step w s)) (snd (step w t))"
    and step_frame: "ok i w s \<Longrightarrow> compatible i j \<Longrightarrow> agree j s (snd (step w s))"
begin

lemma alone_local:
  "ok i w s \<Longrightarrow> agree i s t \<Longrightarrow>
   fst (alone step n w s) = fst (alone step n w t) \<and> agree i (snd (alone step n w s)) (snd (alone step n w t))"
proof (induction n arbitrary: w s t)
  case (Suc n)
  note loc = step_local [OF Suc.prems]
  have "ok i (fst (step w s)) (snd (step w s))" using Suc.prems(1) by (rule ok_step)
  from Suc.IH [OF this conjunct2 [OF loc]] conjunct1 [OF loc] show ?case
    by (simp add: case_prod_beta)
qed simp

definition agents_ok :: "'i set \<Rightarrow> ('i \<Rightarrow> 'w) \<Rightarrow> 's \<Rightarrow> bool" where
  "agents_ok I ws s \<longleftrightarrow> (\<forall>i \<in> I. ok i (ws i) s) \<and> (\<forall>i \<in> I. \<forall>j \<in> I. i \<noteq> j \<longrightarrow> compatible i j)"

lemma agents_ok_step:
  assumes "agents_ok I ws s" "i \<in> I"
  shows "agents_ok I (ws(i := fst (step (ws i) s))) (snd (step (ws i) s))"
proof -
  have i: "ok i (ws i) s" using assms by (simp add: agents_ok_def)
  have "ok j (ws j) (snd (step (ws i) s))" if "j \<in> I" "j \<noteq> i" for j
    using assms that step_frame [OF i, of j] ok_agree [of j "ws j" s] by (auto simp: agents_ok_def)
  then show ?thesis using assms ok_step [OF i] by (auto simp: agents_ok_def)
qed

lemma runAll_alone:
  assumes "agents_ok I ws s" "set sch \<subseteq> I" "j \<in> I"
  shows "fst (runAll step ws s sch) j = fst (alone step (count_list sch j) (ws j) s) \<and>
     agree j (snd (runAll step ws s sch)) (snd (alone step (count_list sch j) (ws j) s))"
  using assms(1,2)
proof (induction sch arbitrary: ws s)
  case Nil
  then show ?case by (simp add: agree_refl)
next
  case (Cons i sch)
  obtain w t where st: "step (ws i) s = (w, t)" by fastforce
  have i: "i \<in> I" using Cons.prems(2) by simp
  define ws' where "ws' = ws(i := w)"
  then have run: "runAll step ws s (i # sch) = runAll step ws' t sch" by (simp add: st)
  have "agents_ok I ws' t"
    using agents_ok_step [OF Cons.prems(1) i] st by (simp add: ws'_def)
  then have IH: "fst (runAll step ws' t sch) j = fst (alone step (count_list sch j) (ws' j) t) \<and>
     agree j (snd (runAll step ws' t sch)) (snd (alone step (count_list sch j) (ws' j) t))"
    using Cons.prems(2) by (intro Cons.IH) auto
  show ?case
  proof (cases "j = i")
    case True
    then show ?thesis using IH st unfolding run by (simp add: ws'_def)
  next
    case False
    have "ok i (ws i) s" "ok j (ws j) s" "compatible i j"
      using Cons.prems(1) i assms(3) False by (auto simp: agents_ok_def)
    then have "ok j (ws j) t" "agree j t s"
      using step_frame [of i "ws i" s j] st by (auto intro: agree_sym ok_agree)
    from alone_local [OF this, of "count_list sch j"] IH show ?thesis
      using False unfolding run by (auto simp: ws'_def intro: agree_trans)
  qed
qed

lemma runAll_frame:
  assumes "agents_ok I ws s" "set sch \<subseteq> I" "\<forall>i \<in> I. compatible i j"
  shows "agree j s (snd (runAll step ws s sch))"
  using assms(1,2)
proof (induction sch arbitrary: ws s)
  case Nil
  then show ?case by (simp add: agree_refl)
next
  case (Cons i sch)
  obtain w t where st: "step (ws i) s = (w, t)" by fastforce
  have i: "i \<in> I" using Cons.prems(2) by simp
  then have "agree j s t"
    using Cons.prems(1) assms(3) step_frame [of i "ws i" s j] st by (auto simp: agents_ok_def)
  moreover have "agents_ok I (ws(i := w)) t"
    using agents_ok_step [OF Cons.prems(1) i] st by simp
  then have "agree j t (snd (runAll step (ws(i := w)) t sch))"
    by (rule Cons.IH) (use Cons.prems(2) in simp)
  ultimately show ?case using st by (auto intro: agree_trans)
qed

text \<open>Two schedules that give every agent the same number of steps are indistinguishable.\<close>

lemma schedule_irrelevant:
  assumes "agents_ok I ws s" "set sch \<subseteq> I" "mset sch = mset sch'"
  shows "(\<forall>i \<in> I. fst (runAll step ws s sch) i = fst (runAll step ws s sch') i) \<and>
     (\<forall>j. j \<in> I \<or> (\<forall>i \<in> I. compatible i j) \<longrightarrow> agree j (snd (runAll step ws s sch)) (snd (runAll step ws s sch')))"
proof -
  have sub: "set sch' \<subseteq> I" using assms(2,3) by (metis set_mset_mset)
  have same: "count_list sch i = count_list sch' i" for i
    using assms(3) by (metis count_mset)
  have "fst (runAll step ws s sch) i = fst (runAll step ws s sch') i \<and>
      agree i (snd (runAll step ws s sch)) (snd (runAll step ws s sch'))" if "i \<in> I" for i
    using runAll_alone [OF assms(1,2) that] runAll_alone [OF assms(1) sub that] same [of i]
    by (auto intro: agree_trans agree_sym)
  moreover have "agree j (snd (runAll step ws s sch)) (snd (runAll step ws s sch'))" if "\<forall>i \<in> I. compatible i j" for j
    using runAll_frame [OF assms(1,2) that] runAll_frame [OF assms(1) sub that]
    by (auto intro: agree_trans agree_sym)
  ultimately show ?thesis by blast
qed

end

end
