(* ===== verification/Worker_Steps.thy ===== *)
theory Worker_Steps
  imports Controller_Invariant Schedules
begin

text \<open>
  Workers of \<^verbatim>\<open>src/internal/watcher/controller.go\<close> at the granularity of their locks.  A worker
  that reconciles one key is a sequence of atomic steps, and each step takes at most one lock of
  the shared tables: one call of the restart tracker, one \<^verbatim>\<open>Fire\<close> or \<^verbatim>\<open>Forget\<close> of the deduper, one
  access to the table of active alerts.  The critical sections of \<^verbatim>\<open>deliver\<close> and \<^verbatim>\<open>clearObject\<close> are
  several steps, since each \<^verbatim>\<open>Forget\<close> inside them takes the deduper's lock; the controller's
  mutex, which only rules interleavings out, is not needed.  Each worker has its own readings of the
  clock and its own output.  Alone, a worker does what \<open>reconcile\<close> does; together, workers
  on different objects cannot disturb each other, however their steps interleave.
\<close>

section \<open>One worker\<close>

datatype phase =
    Starting
  | Observing time Pod "ContainerStatus list" "Alert list"
  | Delivering "Alert list"
  | Firing time "Alert list" "Alert list"
  | Ageing time "(string, unit) gomap" "(string \<times> alertState) list" states
  | Clearing
  | Dropping "string list"
  | Forgetting
  | Finished "string option"

record worker =
  wkKey :: queueKey
  wkWorld :: world
  wkClk :: "nat \<Rightarrow> time"
  wkTicks :: nat
  wkOut :: "call list"
  wkPhase :: phase

definition newWorker :: "queueKey \<Rightarrow> world \<Rightarrow> (nat \<Rightarrow> time) \<Rightarrow> worker" where
  "newWorker key w clk =
     \<lparr>wkKey = key, wkWorld = w, wkClk = clk, wkTicks = 0, wkOut = [], wkPhase = Starting\<rparr>"

text \<open>The part of \<^verbatim>\<open>deliver\<close> under the controller's mutex, as one function.\<close>

definition settle :: "time \<Rightarrow> string \<Rightarrow> Alert list \<Rightarrow> Controller \<Rightarrow> Controller" where
  "settle now objKey alerts c =
     (let current = fold (\<lambda>a m. mput m (Key a) ()) alerts [];
          states = (case mget (cActive c) objKey of Some s \<Rightarrow> s | None \<Rightarrow> []);
          states = fold (\<lambda>k s. mput s k \<lparr>clearingSince = zeroTime\<rparr>) (mkeys current) states;
          (states, d) = fold (ageStep current now (cClearGrace c)) states (states, cDeduper c)
      in c\<lparr>cDeduper := d,
           cActive := (if states = [] then mdel (cActive c) objKey else mput (cActive c) objKey states)\<rparr>)"

text \<open>What the worker decides after reading the clock and the lister.\<close>

definition startPhase :: "worker \<Rightarrow> Controller \<Rightarrow> phase" where
  "startPhase wk c =
     (let now = wkClk wk (wkTicks wk); key = wkKey wk; w = wkWorld wk in
      if qkKind key = ''Pod'' then
        (case wPodGet w (qkNamespace key) (qkName key) of
           NotFound \<Rightarrow> Clearing
         | GetErr e \<Rightarrow> Finished (Some e)
         | Found pod \<Rightarrow>
             (let alerts = EvaluatePod (wIsPrint w) (Some pod) (oThresholds (cOpts c)) now in
              if sint (oRapidRestartCount (cOpts c)) \<le> 0 then Delivering alerts
              else Observing now pod (podContainerStatuses pod) alerts))
      else if qkKind key = ''Node'' then
        (case wNodeGet w (qkName key) of
           NotFound \<Rightarrow> Clearing
         | GetErr e \<Rightarrow> Finished (Some e)
         | Found node \<Rightarrow> Delivering (EvaluateNode (Some node) (oThresholds (cOpts c)) now))
      else Finished (Some (''watcher: unknown kind '' @ quote (wIsPrint w) (qkKind key))))"

definition workerStep :: "worker \<Rightarrow> Controller \<Rightarrow> worker \<times> Controller" where
  "workerStep wk c =
     (let key = wkKey wk; obj = objectKey key; now = wkClk wk (wkTicks wk); next = Suc (wkTicks wk) in
      case wkPhase wk of
        Starting \<Rightarrow> (wk\<lparr>wkTicks := (if known key then next else wkTicks wk), wkPhase := startPhase wk c\<rparr>, c)
      | Observing t pod [] out \<Rightarrow> (wk\<lparr>wkPhase := Delivering out\<rparr>, c)
      | Observing t pod (cs # css) out \<Rightarrow>
          (case rapidStep (wIsPrint (wkWorld wk)) pod (oRapidRestartWindow (cOpts c)) t cs (out, cTracker c) of
             (out, tr) \<Rightarrow> (wk\<lparr>wkPhase := Observing t pod css out\<rparr>, c\<lparr>cTracker := tr\<rparr>))
      | Delivering alerts \<Rightarrow> (wk\<lparr>wkTicks := next, wkPhase := Firing now alerts alerts\<rparr>, c)
      | Firing t (a # rest) alerts \<Rightarrow>
          (case DeduperFire (cDeduper c) now a of
             (d, calls) \<Rightarrow>
               (wk\<lparr>wkTicks := next, wkOut := wkOut wk @ calls, wkPhase := Firing t rest alerts\<rparr>,
                c\<lparr>cDeduper := d\<rparr>))
      | Firing t [] alerts \<Rightarrow>
          (let current = fold (\<lambda>a m. mput m (Key a) ()) alerts [];
               states = (case mget (cActive c) obj of Some s \<Rightarrow> s | None \<Rightarrow> []);
               states = fold (\<lambda>k s. mput s k \<lparr>clearingSince = zeroTime\<rparr>) (mkeys current) states
           in (wk\<lparr>wkPhase := Ageing t current states states\<rparr>, c))
      | Ageing t current (e # es) states \<Rightarrow>
          (case ageStep current t (cClearGrace c) e (states, cDeduper c) of
             (states, d) \<Rightarrow> (wk\<lparr>wkPhase := Ageing t current es states\<rparr>, c\<lparr>cDeduper := d\<rparr>))
      | Ageing t current [] states \<Rightarrow>
          (wk\<lparr>wkPhase := Finished None\<rparr>,
           c\<lparr>cActive := (if states = [] then mdel (cActive c) obj else mput (cActive c) obj states)\<rparr>)
      | Clearing \<Rightarrow>
          (wk\<lparr>wkPhase := Dropping (mkeys (case mget (cActive c) obj of Some s \<Rightarrow> s | None \<Rightarrow> []))\<rparr>, c)
      | Dropping (k # ks) \<Rightarrow> (wk\<lparr>wkPhase := Dropping ks\<rparr>, c\<lparr>cDeduper := DeduperForget (cDeduper c) k\<rparr>)
      | Dropping [] \<Rightarrow>
          (wk\<lparr>wkPhase := (if qkKind key = ''Pod'' then Forgetting else Finished None)\<rparr>,
           c\<lparr>cActive := mdel (cActive c) obj\<rparr>)
      | Forgetting \<Rightarrow>
          (wk\<lparr>wkPhase := Finished None\<rparr>,
           c\<lparr>cTracker := forgetPod (cTracker c) (qkNamespace key @ ''/'' @ qkName key)\<rparr>)
      | Finished e \<Rightarrow> (wk, c))"

lemma currentKeys_fold: "fold (\<lambda>a m. mput m (Key a) ()) alerts [] = currentKeys alerts"
proof -
  have "fold (\<lambda>a m. mput m (Key a) ()) alerts m = fold (\<lambda>k m. mput m k ()) (map Key alerts) m" for m
    by (induction alerts arbitrary: m) simp_all
  then show ?thesis by (simp add: currentKeys_def)
qed

lemmas deliver_views = currentKeys_fold statesOf_def [symmetric] firingState_def [symmetric] markedStates_def [symmetric]

lemma settle_eq:
  "settle now obj alerts c =
     (let s = agedStates (cClearGrace c) now alerts (statesOf c obj)
      in c\<lparr>cDeduper := fold (\<lambda>k d. DeduperForget d k) (droppedKeys (cClearGrace c) now alerts (statesOf c obj)) (cDeduper c),
           cActive := (if s = [] then mdel (cActive c) obj else mput (cActive c) obj s)\<rparr>)"
  unfolding settle_def by (simp add: Let_def deliver_views fold_ageStep agedStates_def droppedKeys_def)

lemma workerStep_locks:
  "wkPhase wk = Firing t [] alerts \<Longrightarrow> workerStep wk c =
     (wk\<lparr>wkPhase := Ageing t (currentKeys alerts) (markedStates alerts (statesOf c (objectKey (wkKey wk))))
        (markedStates alerts (statesOf c (objectKey (wkKey wk))))\<rparr>, c)"
  "wkPhase wk = Clearing \<Longrightarrow> workerStep wk c =
     (wk\<lparr>wkPhase := Dropping (mkeys (statesOf c (objectKey (wkKey wk))))\<rparr>, c)"
  by (simp_all add: workerStep_def Let_def deliver_views)

section \<open>A worker alone\<close>

lemma alone_step:
  "workerStep wk c = (wk', c') \<Longrightarrow> alone workerStep n wk' c' = r \<Longrightarrow> alone workerStep (Suc n) wk c = r"
  by simp

lemma alone_chain:
  "alone workerStep m wk c = (wk', c') \<Longrightarrow> alone workerStep n wk' c' = r \<Longrightarrow> alone workerStep (m + n) wk c = r"
  by (simp add: alone_add)

lemma alone_ageing:
  assumes "wkPhase wk = Ageing t current es states"
  shows "alone workerStep (Suc (length es)) wk c =
     (wk\<lparr>wkPhase := Finished None\<rparr>,
      (case fold (ageStep current t (cClearGrace c)) es (states, cDeduper c) of
         (states, d) \<Rightarrow> c\<lparr>cDeduper := d, cActive := (if states = [] then mdel (cActive c) (objectKey (wkKey wk))
            else mput (cActive c) (objectKey (wkKey wk)) states)\<rparr>))"
  using assms
proof (induction es arbitrary: wk c states)
  case Nil
  then show ?case by (simp add: workerStep_def Let_def)
next
  case (Cons e es)
  obtain states' d where f: "ageStep current t (cClearGrace c) e (states, cDeduper c) = (states', d)" by fastforce
  let ?wk = "wk\<lparr>wkPhase := Ageing t current es states'\<rparr>"
  have st: "workerStep wk c = (?wk, c\<lparr>cDeduper := d\<rparr>)"
    using Cons.prems f by (simp add: workerStep_def Let_def)
  from alone_step [OF st Cons.IH [of ?wk states' "c\<lparr>cDeduper := d\<rparr>"]] show ?case
    using f by (simp add: case_prod_beta)
qed

lemma alone_settle:
  assumes "wkPhase wk = Firing t [] alerts"
  shows "\<exists>n. alone workerStep n wk c = (wk\<lparr>wkPhase := Finished None\<rparr>, settle t (objectKey (wkKey wk)) alerts c)"
proof -
  let ?current = "fold (\<lambda>a m. mput m (Key a) ()) alerts []"
  let ?states = "fold (\<lambda>k s. mput s k \<lparr>clearingSince = zeroTime\<rparr>) (mkeys ?current)
    (case mget (cActive c) (objectKey (wkKey wk)) of Some s \<Rightarrow> s | None \<Rightarrow> [])"
  let ?wk = "wk\<lparr>wkPhase := Ageing t ?current ?states ?states\<rparr>"
  have st: "workerStep wk c = (?wk, c)" using assms by (simp add: workerStep_def Let_def)
  have "alone workerStep (Suc (length ?states)) ?wk c =
      (wk\<lparr>wkPhase := Finished None\<rparr>, settle t (objectKey (wkKey wk)) alerts c)"
    by (subst alone_ageing [of ?wk t ?current ?states ?states]) (simp_all add: settle_def Let_def case_prod_beta del: alone.simps)
  from alone_step [OF st this] show ?thesis by blast
qed

lemma alone_firing:
  assumes "wkPhase wk = Firing t rest alerts"
  shows "alone workerStep (length rest) wk c =
     (wk\<lparr>wkTicks := wkTicks wk + length rest,
         wkOut := wkOut wk @ snd (pipeRun (cDeduper c) (fireOps (wkClk wk) (wkTicks wk) rest)),
         wkPhase := Firing t [] alerts\<rparr>,
      c\<lparr>cDeduper := fst (pipeRun (cDeduper c) (fireOps (wkClk wk) (wkTicks wk) rest))\<rparr>)"
  using assms
proof (induction rest arbitrary: wk c)
  case Nil
  then show ?case by simp
next
  case (Cons a rest)
  obtain d calls where f: "DeduperFire (cDeduper c) (wkClk wk (wkTicks wk)) a = (d, calls)" by fastforce
  let ?wk = "wk\<lparr>wkTicks := Suc (wkTicks wk), wkOut := wkOut wk @ calls, wkPhase := Firing t rest alerts\<rparr>"
  have st: "workerStep wk c = (?wk, c\<lparr>cDeduper := d\<rparr>)"
    using Cons.prems f by (simp add: workerStep_def Let_def)
  from alone_step [OF st Cons.IH [of ?wk "c\<lparr>cDeduper := d\<rparr>"]] show ?case
    using f by (simp add: case_prod_beta)
qed

lemma fireOps_shift: "fireOps (\<lambda>i. clk (i + m - n)) (n + k) alerts = fireOps clk (m + k) alerts"
proof (induction alerts arbitrary: k)
  case (Cons a alerts)
  have "(n + k) + m - n = m + k" by simp
  with Cons [of "Suc k"] show ?case by (simp add: add.commute)
qed simp

text \<open>The readings of the worker, as the controller would count them from \<open>n\<close>.\<close>

definition readings :: "worker \<Rightarrow> nat \<Rightarrow> nat \<Rightarrow> time" where
  "readings wk n i = wkClk wk (i + wkTicks wk - n)"

lemma alone_delivering:
  assumes "wkPhase wk = Delivering alerts"
  shows "\<exists>n wk' calls. alone workerStep n wk c =
     (wk', (deliver (readings wk (cTicks c)) c (objectKey (wkKey wk)) alerts)\<lparr>cTicks := cTicks c, cOut := cOut c\<rparr>) \<and>
     wkPhase wk' = Finished None \<and> wkOut wk' = wkOut wk @ calls \<and>
     cOut (deliver (readings wk (cTicks c)) c (objectKey (wkKey wk)) alerts) = cOut c @ calls"
proof -
  let ?now = "wkClk wk (wkTicks wk)"
  let ?wk = "wk\<lparr>wkTicks := Suc (wkTicks wk), wkPhase := Firing ?now alerts alerts\<rparr>"
  let ?p = "pipeRun (cDeduper c) (fireOps (wkClk wk) (Suc (wkTicks wk)) alerts)"
  have st: "workerStep wk c = (?wk, c)" using assms by (simp add: workerStep_def Let_def)
  let ?wk1 = "?wk\<lparr>wkTicks := Suc (wkTicks wk) + length alerts, wkOut := wkOut wk @ snd ?p, wkPhase := Firing ?now [] alerts\<rparr>"
  let ?wk2 = "?wk1\<lparr>wkPhase := Finished None\<rparr>"
  have fired: "alone workerStep (length alerts) ?wk c = (?wk1, c\<lparr>cDeduper := fst ?p\<rparr>)"
    using alone_firing [of ?wk ?now alerts alerts c] by simp
  obtain n where "alone workerStep n ?wk1 (c\<lparr>cDeduper := fst ?p\<rparr>) =
      (?wk2, settle ?now (objectKey (wkKey wk)) alerts (c\<lparr>cDeduper := fst ?p\<rparr>))"
    using alone_settle [of ?wk1 ?now alerts "c\<lparr>cDeduper := fst ?p\<rparr>"] by auto
  note run = alone_step [OF st alone_chain [OF fired this]]
  have ops: "deliverOps (readings wk (cTicks c)) c (objectKey (wkKey wk)) alerts =
      fireOps (wkClk wk) (Suc (wkTicks wk)) alerts @
      map ForgetOp (droppedKeys (cClearGrace c) ?now alerts (statesOf c (objectKey (wkKey wk))))"
    using fireOps_shift [of "wkClk wk" "wkTicks wk" "cTicks c" 1 alerts]
    by (simp add: deliverOps_def readings_def [abs_def])
  have settled: "settle ?now (objectKey (wkKey wk)) alerts (c\<lparr>cDeduper := fst ?p\<rparr>) =
      (deliver (readings wk (cTicks c)) c (objectKey (wkKey wk)) alerts)\<lparr>cTicks := cTicks c, cOut := cOut c\<rparr>"
    by (simp add: settle_eq deliver_eq Let_def ops pipeRun_append pipeRun_forgets) (simp add: readings_def)
  have "cOut (deliver (readings wk (cTicks c)) c (objectKey (wkKey wk)) alerts) = cOut c @ snd ?p"
    by (simp add: ops pipeRun_append pipeRun_forgets)
  then show ?thesis
    by (intro exI [of _ "Suc (length alerts + n)"] exI [of _ ?wk2] exI [of _ "snd ?p"] conjI, unfold run settled)
      simp_all
qed

lemma alone_observing:
  assumes "wkPhase wk = Observing t pod css out"
  shows "alone workerStep (Suc (length css)) wk c =
     (wk\<lparr>wkPhase := Delivering (fst (fold (rapidStep (wIsPrint (wkWorld wk)) pod (oRapidRestartWindow (cOpts c)) t) css (out, cTracker c)))\<rparr>,
      c\<lparr>cTracker := snd (fold (rapidStep (wIsPrint (wkWorld wk)) pod (oRapidRestartWindow (cOpts c)) t) css (out, cTracker c))\<rparr>)"
  using assms
proof (induction css arbitrary: wk c out)
  case Nil
  then show ?case by (simp add: workerStep_def Let_def)
next
  case (Cons cs css)
  obtain out' tr where f: "rapidStep (wIsPrint (wkWorld wk)) pod (oRapidRestartWindow (cOpts c)) t cs (out, cTracker c) = (out', tr)"
    by fastforce
  let ?wk = "wk\<lparr>wkPhase := Observing t pod css out'\<rparr>"
  have st: "workerStep wk c = (?wk, c\<lparr>cTracker := tr\<rparr>)"
    using Cons.prems f by (simp add: workerStep_def Let_def)
  from alone_step [OF st Cons.IH [of ?wk out' "c\<lparr>cTracker := tr\<rparr>"]] show ?case using f by simp
qed

lemma rapidStep_prefix:
  "rapidStep p pod wd t cs (xs @ out, tr) =
     (xs @ fst (rapidStep p pod wd t cs (out, tr)), snd (rapidStep p pod wd t cs (out, tr)))"
  by (simp add: rapidStep_def Let_def case_prod_beta)

lemma fold_rapidStep_prefix:
  "fold (rapidStep p pod wd t) css (xs @ out, tr) =
     (xs @ fst (fold (rapidStep p pod wd t) css (out, tr)), snd (fold (rapidStep p pod wd t) css (out, tr)))"
proof (induction css arbitrary: out tr)
  case (Cons cs css)
  obtain out' tr' where "rapidStep p pod wd t cs (out, tr) = (out', tr')" by fastforce
  then show ?case using Cons [of out' tr'] by (simp add: rapidStep_prefix)
qed simp

lemma alone_starting:
  assumes "wkPhase wk = Starting"
  shows "alone workerStep 1 wk c =
     (wk\<lparr>wkTicks := (if known (wkKey wk) then Suc (wkTicks wk) else wkTicks wk), wkPhase := startPhase wk c\<rparr>, c)"
  using assms by (simp add: workerStep_def Let_def)

lemma alone_dropping:
  assumes "wkPhase wk = Dropping ks"
  shows "alone workerStep (Suc (length ks)) wk c =
     (wk\<lparr>wkPhase := (if qkKind (wkKey wk) = ''Pod'' then Forgetting else Finished None)\<rparr>,
      c\<lparr>cDeduper := fold (\<lambda>k d. DeduperForget d k) ks (cDeduper c), cActive := mdel (cActive c) (objectKey (wkKey wk))\<rparr>)"
  using assms
proof (induction ks arbitrary: wk c)
  case Nil
  then show ?case by (simp add: workerStep_def Let_def)
next
  case (Cons k ks)
  let ?wk = "wk\<lparr>wkPhase := Dropping ks\<rparr>" and ?c = "c\<lparr>cDeduper := DeduperForget (cDeduper c) k\<rparr>"
  have st: "workerStep wk c = (?wk, ?c)" using Cons.prems by (simp add: workerStep_def Let_def)
  from alone_step [OF st Cons.IH [of ?wk ?c]] show ?case by simp
qed

lemma alone_clearObject:
  assumes "wkPhase wk = Clearing"
  shows "\<exists>n. alone workerStep n wk c =
     (wk\<lparr>wkPhase := (if qkKind (wkKey wk) = ''Pod'' then Forgetting else Finished None)\<rparr>, clearObject c (objectKey (wkKey wk)))"
proof -
  let ?ks = "mkeys (case mget (cActive c) (objectKey (wkKey wk)) of Some s \<Rightarrow> s | None \<Rightarrow> [])"
  let ?wk = "wk\<lparr>wkPhase := Dropping ?ks\<rparr>"
  have st: "workerStep wk c = (?wk, c)" using assms by (simp add: workerStep_def Let_def)
  have "alone workerStep (Suc (length ?ks)) ?wk c =
     (wk\<lparr>wkPhase := (if qkKind (wkKey wk) = ''Pod'' then Forgetting else Finished None)\<rparr>, clearObject c (objectKey (wkKey wk)))"
    by (subst alone_dropping [of ?wk ?ks]) (simp_all add: clearObject_def Let_def del: alone.simps)
  from alone_step [OF st this] show ?thesis by blast
qed

lemma alone_clearing:
  assumes "wkPhase wk = Clearing"
  shows "\<exists>n. alone workerStep n wk c =
     (wk\<lparr>wkPhase := Finished None\<rparr>,
      (clearObject c (objectKey (wkKey wk)))\<lparr>cTracker :=
         (if qkKind (wkKey wk) = ''Pod'' then forgetPod (cTracker c) (qkNamespace (wkKey wk) @ ''/'' @ qkName (wkKey wk))
          else cTracker c)\<rparr>)"
proof -
  let ?c = "clearObject c (objectKey (wkKey wk))"
  have tr: "cTracker ?c = cTracker c" by (simp add: clearObject_eq)
  have same: "?c\<lparr>cTracker := cTracker c\<rparr> = ?c" by (simp add: clearObject_eq)
  obtain n where n: "alone workerStep n wk c =
      (wk\<lparr>wkPhase := (if qkKind (wkKey wk) = ''Pod'' then Forgetting else Finished None)\<rparr>, ?c)"
    using alone_clearObject [OF assms] by blast
  show ?thesis
  proof (cases "qkKind (wkKey wk) = ''Pod''")
    case True
    have "alone workerStep 1 (wk\<lparr>wkPhase := Forgetting\<rparr>) ?c = (wk\<lparr>wkPhase := Finished None\<rparr>,
        ?c\<lparr>cTracker := forgetPod (cTracker c) (qkNamespace (wkKey wk) @ ''/'' @ qkName (wkKey wk))\<rparr>)"
      by (simp add: workerStep_def Let_def tr)
    from alone_chain [OF n [unfolded if_P [OF True]] this] show ?thesis unfolding if_P [OF True] by blast
  next
    case False
    then show ?thesis using n same by (intro exI [of _ n]) simp
  qed
qed

text \<open>From the start to the delivery of the alerts \<open>reconcile\<close> sees.\<close>

lemma alone_alerts:
  assumes "wkPhase wk = Starting" "viewOf (readings wk (cTicks c)) (wkWorld wk) c (wkKey wk) = VAlerts alerts tr"
  shows "\<exists>n. alone workerStep n wk c =
     (wk\<lparr>wkTicks := Suc (wkTicks wk), wkPhase := Delivering alerts\<rparr>, c\<lparr>cTracker := tr\<rparr>)"
proof -
  let ?key = "wkKey wk" and ?w = "wkWorld wk" and ?now = "wkClk wk (wkTicks wk)"
  have now: "readings wk (cTicks c) (cTicks c) = ?now" by (simp add: readings_def)
  have kn: "known ?key" using assms(2) by (auto simp: viewOf_def known_def Let_def split: if_splits)
  have one: "alone workerStep 1 wk c = (wk\<lparr>wkTicks := Suc (wkTicks wk), wkPhase := startPhase wk c\<rparr>, c)"
    using alone_starting [OF assms(1)] kn by simp
  show ?thesis
  proof (cases "\<exists>css out pod. startPhase wk c = Observing ?now pod css out")
    case True
    then obtain css out pod where start: "startPhase wk c = Observing ?now pod css out" by blast
    then have pod: "wPodGet ?w (qkNamespace ?key) (qkName ?key) = Found pod" "qkKind ?key = ''Pod''"
      "css = podContainerStatuses pod" "out = EvaluatePod (wIsPrint ?w) (Some pod) (oThresholds (cOpts c)) ?now"
      "\<not> sint (oRapidRestartCount (cOpts c)) \<le> 0"
      by (auto simp: startPhase_def Let_def split: if_splits getResult.splits)
    let ?wk = "wk\<lparr>wkTicks := Suc (wkTicks wk), wkPhase := Observing ?now pod css out\<rparr>"
    have two: "alone workerStep (1 + Suc (length css)) wk c = alone workerStep (Suc (length css)) ?wk c"
      using alone_add [of workerStep 1 "Suc (length css)" wk c] one start by simp
    let ?fold = "fold (rapidStep (wIsPrint ?w) pod (oRapidRestartWindow (cOpts c)) ?now) css (out, cTracker c)"
    have seen: "fst ?fold = alerts" "snd ?fold = tr"
      using assms(2) pod now fold_rapidStep_prefix [of "wIsPrint ?w" pod "oRapidRestartWindow (cOpts c)" ?now css out "[]" "cTracker c"]
      by (auto simp: viewOf_def rapidRestartAlerts_def case_prod_beta Let_def)
    have "alone workerStep (Suc (length css)) ?wk c = (?wk\<lparr>wkPhase := Delivering (fst ?fold)\<rparr>, c\<lparr>cTracker := snd ?fold\<rparr>)"
      by (subst alone_observing [of ?wk ?now pod css out]) (simp_all del: alone.simps)
    then have "alone workerStep (1 + Suc (length css)) wk c =
        (wk\<lparr>wkTicks := Suc (wkTicks wk), wkPhase := Delivering alerts\<rparr>, c\<lparr>cTracker := tr\<rparr>)"
      unfolding two seen by simp
    then show ?thesis by blast
  next
    case False
    then have "startPhase wk c = Delivering alerts" "tr = cTracker c"
      using assms(2) now
      by (auto simp: startPhase_def viewOf_def rapidRestartAlerts_def Let_def split: if_splits getResult.splits)
    then show ?thesis using one by (intro exI [of _ 1]) simp
  qed
qed

lemma fireOps_Suc:
  "(\<And>i. m \<le> i \<Longrightarrow> clk i = clk' (Suc i)) \<Longrightarrow> m \<le> n \<Longrightarrow> fireOps clk n alerts = fireOps clk' (Suc n) alerts"
  by (induction alerts arbitrary: n) simp_all

lemma deliver_tick:
  assumes "\<And>i. cTicks c \<le> i \<Longrightarrow> clk i = clk' (Suc i)"
  shows "(deliver clk c obj alerts)\<lparr>cTicks := n, cOut := out\<rparr> = (deliver clk' (tick c) obj alerts)\<lparr>cTicks := n, cOut := out\<rparr>"
    "cOut (deliver clk c obj alerts) = cOut (deliver clk' (tick c) obj alerts)"
proof -
  have "deliverOps clk c obj alerts = deliverOps clk' (tick c) obj alerts"
    using fireOps_Suc [of "cTicks c" clk clk' "Suc (cTicks c)" alerts] assms
    by (simp add: deliverOps_def tick_def)
  then show "(deliver clk c obj alerts)\<lparr>cTicks := n, cOut := out\<rparr> = (deliver clk' (tick c) obj alerts)\<lparr>cTicks := n, cOut := out\<rparr>"
    "cOut (deliver clk c obj alerts) = cOut (deliver clk' (tick c) obj alerts)"
    using assms by (simp_all add: deliver_eq Let_def) (simp_all add: tick_def)
qed

definition does :: "worker \<Rightarrow> Controller \<Rightarrow> Controller \<times> string option \<Rightarrow> bool" where
  "does wk c R \<longleftrightarrow> (\<exists>n wk'. alone workerStep n wk c = (wk', (fst R)\<lparr>cTicks := cTicks c, cOut := cOut c\<rparr>) \<and>
     wkPhase wk' = Finished (snd R) \<and> cOut (fst R) = cOut c @ wkOut wk')"

lemma newWorker_fields [simp]:
  "wkKey (newWorker key w clk) = key" "wkWorld (newWorker key w clk) = w" "wkPhase (newWorker key w clk) = Starting"
  "wkOut (newWorker key w clk) = []" "wkTicks (newWorker key w clk) = 0" "wkClk (newWorker key w clk) = clk"
  by (simp_all add: newWorker_def)

lemma worker_gone:
  assumes "viewOf (\<lambda>i. clk (i - cTicks c)) w c key = VGone"
  shows "does (newWorker key w clk) c (reconcile (\<lambda>i. clk (i - cTicks c)) w c key)"
proof -
  let ?wk = "newWorker key w clk" and ?clk = "\<lambda>i. clk (i - cTicks c)"
  let ?wk1 = "?wk\<lparr>wkTicks := 1, wkPhase := Clearing\<rparr>"
  have "known key" "startPhase ?wk c = Clearing"
    using assms by (auto simp: viewOf_def startPhase_def known_def Let_def split: if_splits getResult.splits)
  then have one: "alone workerStep 1 ?wk c = (?wk1, c)"
    using alone_starting [of ?wk c] by simp
  have "wkPhase ?wk1 = Clearing" "wkKey ?wk1 = key" by simp_all
  from alone_clearing [OF this(1), of c, unfolded this(2)] obtain n where
    n: "alone workerStep n ?wk1 c = (?wk1\<lparr>wkPhase := Finished None\<rparr>, (clearObject c (objectKey key))\<lparr>cTracker :=
         (if qkKind key = ''Pod'' then forgetPod (cTracker c) (qkNamespace key @ ''/'' @ qkName key) else cTracker c)\<rparr>)"
    by blast
  have "alone workerStep (1 + n) ?wk c =
      (?wk1\<lparr>wkPhase := Finished None\<rparr>, (fst (reconcile ?clk w c key))\<lparr>cTicks := cTicks c, cOut := cOut c\<rparr>)"
    unfolding alone_add one fst_conv snd_conv n using assms by (simp add: reconcile_view clearObject_eq tick_def)
  moreover have "snd (reconcile ?clk w c key) = None" "cOut (fst (reconcile ?clk w c key)) = cOut c"
    using assms by (simp_all add: reconcile_view clearObject_eq tick_def)
  ultimately show ?thesis
    unfolding does_def by (intro exI [of _ "1 + n"] exI [of _ "?wk1\<lparr>wkPhase := Finished None\<rparr>"]) simp
qed

lemma worker_failed:
  assumes "viewOf (\<lambda>i. clk (i - cTicks c)) w c key = VFailed e"
  shows "does (newWorker key w clk) c (reconcile (\<lambda>i. clk (i - cTicks c)) w c key)"
proof -
  let ?wk = "newWorker key w clk"
  have "startPhase ?wk c = Finished (Some e)"
    using assms by (auto simp: viewOf_def startPhase_def Let_def split: if_splits getResult.splits)
  then show ?thesis
    using alone_starting [of ?wk c] assms unfolding does_def
    by (intro exI [of _ 1]) (simp del: alone.simps add: reconcile_view tick_def)
qed

lemma worker_alerts:
  assumes "viewOf (\<lambda>i. clk (i - cTicks c)) w c key = VAlerts alerts tr"
  shows "does (newWorker key w clk) c (reconcile (\<lambda>i. clk (i - cTicks c)) w c key)"
proof -
  let ?wk = "newWorker key w clk" and ?clk = "\<lambda>i. clk (i - cTicks c)" and ?c = "c\<lparr>cTracker := tr\<rparr>"
  let ?wk1 = "?wk\<lparr>wkTicks := Suc 0, wkPhase := Delivering alerts\<rparr>"
  have "readings ?wk (cTicks c) = ?clk" by (simp add: readings_def fun_eq_iff)
  then obtain n where n: "alone workerStep n ?wk c = (?wk1, ?c)"
    using alone_alerts [of ?wk c alerts tr] assms by auto
  have "readings ?wk1 (cTicks ?c) i = ?clk (Suc i)" for i by (simp add: readings_def)
  note shift = deliver_tick [of ?c "readings ?wk1 (cTicks ?c)" ?clk, OF this]
  have "tick ?c = (tick c)\<lparr>cTracker := tr\<rparr>" by (cases c) (simp add: tick_def)
  then have R: "reconcile ?clk w c key = (deliver ?clk (tick ?c) (objectKey key) alerts, None)"
    using assms by (simp add: reconcile_view)
  obtain m wk' calls where m: "alone workerStep m ?wk1 ?c =
      (wk', (deliver (readings ?wk1 (cTicks ?c)) ?c (objectKey (wkKey ?wk1)) alerts)\<lparr>cTicks := cTicks ?c, cOut := cOut ?c\<rparr>)"
    "wkPhase wk' = Finished None" "wkOut wk' = wkOut ?wk1 @ calls"
    "cOut (deliver (readings ?wk1 (cTicks ?c)) ?c (objectKey (wkKey ?wk1)) alerts) = cOut ?c @ calls"
    using alone_delivering [of ?wk1 alerts ?c] by auto
  have "alone workerStep (n + m) ?wk c = (wk', (fst (reconcile ?clk w c key))\<lparr>cTicks := cTicks c, cOut := cOut c\<rparr>)"
    unfolding alone_add n fst_conv snd_conv m(1) shift R by simp
  moreover have "cOut (fst (reconcile ?clk w c key)) = cOut c @ calls"
    using m(4) unfolding shift(2) R by (simp del: deliver_frame)
  ultimately show ?thesis unfolding does_def using m(2,3) R
    by (intro exI [of _ "n + m"] exI [of _ wk']) (simp del: deliver_frame)
qed

lemma worker_reconciles: "does (newWorker key w clk) c (reconcile (\<lambda>i. clk (i - cTicks c)) w c key)"
  by (cases "viewOf (\<lambda>i. clk (i - cTicks c)) w c key") (auto intro: worker_gone worker_failed worker_alerts)

end
