(* ===== verification/Workers_Parallel.thy ===== *)
theory Workers_Parallel
  imports Worker_Steps Controller_Runs
begin

text \<open>
  Workers that run at the same time.  The work queue never hands one key to two workers, so
  they reconcile different objects; they share the deduper, the restart tracker and the table of
  active alerts.  Each worker keeps to the entries of its own object in all three.  It follows
  that every interleaving of their steps gives each worker the result, the calls and the table
  entries that \<open>reconcile\<close> would give it alone.
\<close>

section \<open>The part of an object\<close>

definition trackedBy :: "queueKey \<Rightarrow> string \<Rightarrow> bool" where
  "trackedBy key k \<longleftrightarrow> qkKind key = ''Pod'' \<and> podContainerKeyMatchesPod k (qkNamespace key @ ''/'' @ qkName key)"

definition sameConfig :: "Controller \<Rightarrow> Controller \<Rightarrow> bool" where
  "sameConfig c c' \<longleftrightarrow> cOpts c = cOpts c' \<and> cClearGrace c = cClearGrace c' \<and>
     dNext (cDeduper c) = dNext (cDeduper c') \<and> dResend (cDeduper c) = dResend (cDeduper c') \<and>
     dCounters (cDeduper c) = dCounters (cDeduper c') \<and>
     rtWindow (cTracker c) = rtWindow (cTracker c') \<and> rtThreshold (cTracker c) = rtThreshold (cTracker c')"

text \<open>The entries of the three tables that belong to an object are the same in both states.\<close>

definition agree :: "queueKey \<Rightarrow> Controller \<Rightarrow> Controller \<Rightarrow> bool" where
  "agree key c c' \<longleftrightarrow> sameConfig c c' \<and>
     mget (cActive c) (objectKey key) = mget (cActive c') (objectKey key) \<and>
     (\<forall>k. owns (objectKey key) k \<longrightarrow> mget (dLastSeen (cDeduper c)) k = mget (dLastSeen (cDeduper c')) k) \<and>
     (\<forall>k. trackedBy key k \<longrightarrow> mget (rtSeen (cTracker c)) k = mget (rtSeen (cTracker c')) k)"

text \<open>A step that changes at most the entries of one object.\<close>

definition within :: "queueKey \<Rightarrow> Controller \<Rightarrow> Controller \<Rightarrow> bool" where
  "within key c c' \<longleftrightarrow> sameConfig c c' \<and>
     (\<forall>obj. obj \<noteq> objectKey key \<longrightarrow> mget (cActive c) obj = mget (cActive c') obj) \<and>
     (\<forall>k. \<not> owns (objectKey key) k \<longrightarrow> mget (dLastSeen (cDeduper c)) k = mget (dLastSeen (cDeduper c')) k) \<and>
     (\<forall>k. \<not> trackedBy key k \<longrightarrow> mget (rtSeen (cTracker c)) k = mget (rtSeen (cTracker c')) k)"

lemma objectKey_inject:
  assumes "wf_key key" "wf_key key'" "objectKey key = objectKey key'"
  shows "key = key'"
proof -
  have split: "objectKey k = qkKind k @ CHR 0x7C # (if qkNamespace k = '''' then qkName k else qkNamespace k @ CHR ''/'' # qkName k)" for k
    by (simp add: objectKey_def)
  have kind: "qkKind key = qkKind key'" and
    rest: "(if qkNamespace key = '''' then qkName key else qkNamespace key @ CHR ''/'' # qkName key) =
      (if qkNamespace key' = '''' then qkName key' else qkNamespace key' @ CHR ''/'' # qkName key')"
    using assms(3) append_sep_inject [of "CHR 0x7C" "qkKind key" "qkKind key'"]
      wf_key_bar_free [OF assms(1)] wf_key_bar_free [OF assms(2)]
    unfolding split by (simp_all add: bar_free_def)
  have slash: "CHR ''/'' \<notin> set (qkNamespace key)" "CHR ''/'' \<notin> set (qkName key)"
    "CHR ''/'' \<notin> set (qkNamespace key')" "CHR ''/'' \<notin> set (qkName key')"
    using assms(1,2) by (simp_all add: wf_key_def plain_def)
  have "qkNamespace key = qkNamespace key' \<and> qkName key = qkName key'"
  proof (cases "qkNamespace key = ''''"; cases "qkNamespace key' = ''''")
    assume "qkNamespace key \<noteq> ''''" "qkNamespace key' \<noteq> ''''"
    then show ?thesis using rest append_sep_inject [OF slash(1,3)] by simp
  next
    assume "qkNamespace key = ''''" "qkNamespace key' \<noteq> ''''"
    then have "qkName key = qkNamespace key' @ CHR ''/'' # qkName key'" using rest by simp
    then show ?thesis using slash(2) by simp
  next
    assume "qkNamespace key \<noteq> ''''" "qkNamespace key' = ''''"
    then have "qkName key' = qkNamespace key @ CHR ''/'' # qkName key" using rest by simp
    then show ?thesis using slash(4) by simp
  qed (use rest in simp)
  with kind show ?thesis by (intro queueKey.equality) simp_all
qed

lemma trackedBy_unique:
  assumes "wf_key key" "wf_key key'" "trackedBy key k" "trackedBy key' k"
  shows "key = key'"
proof -
  obtain t where k: "k = containerKey (qkNamespace key) (qkName key) t"
    using assms(3) by (auto simp: trackedBy_def podContainerKeyMatchesPod_def hasPrefix_iff containerKey_def)
  have "qkNamespace key = qkNamespace key' \<and> qkName key = qkName key'"
    using assms matches_own_pod_iff [of "qkNamespace key'" "qkName key'" "qkNamespace key" "qkName key" t]
    unfolding k by (simp add: trackedBy_def wf_key_def)
  with assms(3,4) show ?thesis by (intro queueKey.equality) (simp_all add: trackedBy_def)
qed

lemma within_agree:
  assumes "within key c c'" "wf_key key" "wf_key key'" "key \<noteq> key'"
  shows "agree key' c c'"
proof -
  have "objectKey key' \<noteq> objectKey key" using objectKey_inject assms(2,3,4) by metis
  moreover from this have "\<not> owns (objectKey key) k" if "owns (objectKey key') k" for k
    using that owns_unique by blast
  moreover have "\<not> trackedBy key k" if "trackedBy key' k" for k
    using that trackedBy_unique assms(2,3,4) by blast
  ultimately show ?thesis using assms(1) by (simp add: within_def agree_def)
qed

lemma agree_statesOf: "agree key c c' \<Longrightarrow> statesOf c (objectKey key) = statesOf c' (objectKey key)"
  by (simp add: agree_def statesOf_def)

section \<open>Well-formed workers\<close>

definition ownsAll :: "queueKey \<Rightarrow> Alert list \<Rightarrow> bool" where
  "ownsAll key alerts \<longleftrightarrow> (\<forall>a \<in> set alerts. owns (objectKey key) (Key a))"

fun phase_ok :: "queueKey \<Rightarrow> phase \<Rightarrow> bool" where
  "phase_ok key (Observing t pod css out) \<longleftrightarrow> qkKind key = ''Pod'' \<and> podNamespace pod = qkNamespace key \<and>
     podName pod = qkName key \<and> ownsAll key out"
| "phase_ok key (Delivering alerts) \<longleftrightarrow> ownsAll key alerts"
| "phase_ok key (Firing t rest alerts) \<longleftrightarrow> ownsAll key rest \<and> ownsAll key alerts"
| "phase_ok key (Ageing t current es states) \<longleftrightarrow>
     (\<forall>k \<in> fst ` set es \<union> set (mkeys states). owns (objectKey key) k)"
| "phase_ok key (Dropping ks) \<longleftrightarrow> (\<forall>k \<in> set ks. owns (objectKey key) k)"
| "phase_ok key Forgetting \<longleftrightarrow> qkKind key = ''Pod''"
| "phase_ok key p \<longleftrightarrow> True"

definition states_owned :: "queueKey \<Rightarrow> Controller \<Rightarrow> bool" where
  "states_owned key c \<longleftrightarrow> (\<forall>k \<in> set (mkeys (statesOf c (objectKey key))). owns (objectKey key) k)"

definition worker_ok :: "queueKey \<Rightarrow> worker \<Rightarrow> Controller \<Rightarrow> bool" where
  "worker_ok key wk c \<longleftrightarrow> wkKey wk = key \<and> wf_key key \<and> lister_ok (wkWorld wk) \<and>
     states_owned key c \<and> phase_ok key (wkPhase wk)"

lemma ownsAll_Evaluate:
  assumes "wf_key key" "lister_ok w"
  shows "qkKind key = ''Pod'' \<Longrightarrow> wPodGet w (qkNamespace key) (qkName key) = Found pod \<Longrightarrow>
      ownsAll key (EvaluatePod p (Some pod) t now)"
    and "qkKind key = ''Node'' \<Longrightarrow> wNodeGet w (qkName key) = Found node \<Longrightarrow>
      ownsAll key (EvaluateNode (Some node) t now)"
proof -
  assume pod: "qkKind key = ''Pod''" "wPodGet w (qkNamespace key) (qkName key) = Found pod"
  then have "podNamespace pod = qkNamespace key" "podName pod = qkName key"
    using assms(2) by (auto simp: lister_ok_def)
  then show "ownsAll key (EvaluatePod p (Some pod) t now)"
    using pod_source.key_of_object [of _ p pod t now] assms(1) pod(1)
    unfolding ownsAll_def owns_def by (metis imageI)
next
  assume node: "qkKind key = ''Node''" "wNodeGet w (qkName key) = Found node"
  then have "nodeName node = qkName key" "qkNamespace key = ''''"
    using assms by (auto simp: lister_ok_def wf_key_def)
  then show "ownsAll key (EvaluateNode (Some node) t now)"
    using node_source.key_of_object [of _ node t now] assms(1) node(1)
    unfolding ownsAll_def owns_def by (metis imageI)
qed

lemma startPhase_ok:
  assumes "worker_ok key wk c"
  shows "phase_ok key (startPhase wk c)"
  using assms ownsAll_Evaluate [of key "wkWorld wk"]
  by (auto simp: worker_ok_def startPhase_def Let_def lister_ok_def split: getResult.split)

lemma rapidStep_owned:
  assumes "wf_key key" "phase_ok key (Observing t pod css out)"
  shows "ownsAll key (fst (rapidStep p pod wd now cs (out, tr)))"
proof -
  have "owns (objectKey key) (Key a)" if "a \<in> set (fst (rapidStep p pod wd now cs (out, tr)))" for a
  proof (cases "a \<in> set out")
    case True
    then show ?thesis using assms(2) by (simp add: ownsAll_def)
  next
    case False
    then have a: "alKind a = ''Pod''" "alNamespace a = podNamespace pod" "alName a = podName pod"
      "alReason a = ReasonRapidRestart"
      using that fold_rapidStep_fst [of a p pod wd now "[cs]" out tr] by simp_all
    have "bar_free ReasonRapidRestart" by (simp add: bar_free_def const_defs)
    then show ?thesis
      unfolding owns_def Key_split a using assms by (intro exI conjI) auto
  qed
  then show ?thesis by (simp add: ownsAll_def)
qed

lemma markedStates_owned:
  assumes "states_owned key c" "ownsAll key alerts" "k \<in> set (mkeys (markedStates alerts (statesOf c (objectKey key))))"
  shows "owns (objectKey key) k"
proof -
  have "k \<in> Key ` set alerts \<or> k \<in> set (mkeys (statesOf c (objectKey key)))"
    using assms(3) by (auto simp: gm.set_keys markedStates_get split: if_splits)
  with assms(1,2) show ?thesis by (auto simp: states_owned_def ownsAll_def)
qed

text \<open>One round of the ageing loop, with the keys it forgets apart.\<close>

lemma ageStep_eq:
  "ageStep current now grace e (s, d) =
     (ageOne current now grace e s, fold (\<lambda>k d. DeduperForget d k) (expiredKeys current now grace [e]) d)"
  using fold_ageStep [of current now grace "[e]" s d] by simp

lemma expiredKeys_one: "set (expiredKeys current now grace [e]) \<subseteq> {fst e}"
  by (auto simp: expiredKeys_def)

lemma ageOne_keys: "set (mkeys (ageOne current now grace e s)) \<subseteq> insert (fst e) (set (mkeys s))"
  by (auto simp: ageOne_def gm.set_keys)

section \<open>A step changes its own part\<close>

lemma sameConfig_refl [simp]: "sameConfig c c"
  by (simp add: sameConfig_def)

lemma within_refl [simp]: "within key c c"
  by (simp add: within_def)

lemma within_tracker:
  assumes "\<And>k. \<not> trackedBy key k \<Longrightarrow> mget (rtSeen (cTracker c)) k = mget (rtSeen tr) k"
    "rtWindow tr = rtWindow (cTracker c)" "rtThreshold tr = rtThreshold (cTracker c)"
  shows "within key c (c\<lparr>cTracker := tr\<rparr>)"
  using assms by (simp add: within_def sameConfig_def)

lemma within_active:
  "within key c (c\<lparr>cActive := (if s = [] then mdel (cActive c) (objectKey key) else mput (cActive c) (objectKey key) s)\<rparr>)"
  by (simp add: within_def sameConfig_def)

lemma forgets_frame [simp, frame]:
  "dNext (fold (\<lambda>k d. DeduperForget d k) ks d) = dNext d"
  "dResend (fold (\<lambda>k d. DeduperForget d k) ks d) = dResend d"
  "dCounters (fold (\<lambda>k d. DeduperForget d k) ks d) = dCounters d"
  by (induction ks arbitrary: d) simp_all

lemma within_forgets:
  assumes "\<forall>k \<in> set ks. owns (objectKey key) k"
  shows "within key c (c\<lparr>cDeduper := fold (\<lambda>k d. DeduperForget d k) ks (cDeduper c)\<rparr>)"
  using assms by (auto simp: within_def sameConfig_def dd.get_fold_del)

lemma DeduperFire_other:
  "k \<noteq> Key a \<Longrightarrow> mget (dLastSeen (fst (DeduperFire d now a))) k = mget (dLastSeen d) k"
  by (cases "delivers d now a") (simp_all add: DeduperFire_delivers DeduperFire_suppresses)

lemma within_fire:
  assumes "owns (objectKey key) (Key a)"
  shows "within key c (c\<lparr>cDeduper := fst (DeduperFire (cDeduper c) now a)\<rparr>)"
proof -
  have "mget (dLastSeen (cDeduper c)) k = mget (dLastSeen (fst (DeduperFire (cDeduper c) now a))) k"
    if "\<not> owns (objectKey key) k" for k
    using DeduperFire_other [of k a "cDeduper c" now] assms that by (cases "k = Key a") auto
  then show ?thesis by (simp add: within_def sameConfig_def)
qed

lemma ckey_tracked:
  "phase_ok key (Observing t pod css out) \<Longrightarrow> trackedBy key ((podNamespace pod @ ''/'' @ podName pod) @ ''/'' @ x)"
  by (simp add: trackedBy_def podContainerKeyMatchesPod_def hasPrefix_iff)

lemma rapidStep_snd:
  "snd (rapidStep p pod wd now cs (out, tr)) =
     fst (observe tr ((podNamespace pod @ ''/'' @ podName pod) @ ''/'' @ csName cs) (csRestartCount cs) now)"
  by (simp add: rapidStep_def Let_def case_prod_beta)

lemma within_rapidStep:
  assumes "phase_ok key (Observing t pod css out)"
  shows "within key c (c\<lparr>cTracker := snd (rapidStep p pod wd now cs (out, cTracker c))\<rparr>)"
  unfolding rapidStep_snd
  using ckey_tracked [OF assms] by (intro within_tracker) (auto simp: observe_seen)

lemma within_forgetPod:
  assumes "qkKind key = ''Pod''"
  shows "within key c (c\<lparr>cTracker := forgetPod (cTracker c) (qkNamespace key @ ''/'' @ qkName key)\<rparr>)"
  using assms by (intro within_tracker) (simp_all add: forgetPod_seen trackedBy_def)

lemma step_within:
  assumes "worker_ok key wk c"
  shows "within key c (snd (workerStep wk c))"
proof -
  have key: "wkKey wk = key" "states_owned key c" and ph: "phase_ok key (wkPhase wk)"
    using assms by (simp_all add: worker_ok_def)
  show ?thesis
  proof (cases "wkPhase wk")
    case (Observing t pod css out)
    then show ?thesis using ph within_rapidStep [of key t pod css out c]
      by (cases css) (simp_all add: workerStep_def Let_def case_prod_beta)
  next
    case (Firing t rest alerts)
    then show ?thesis using ph key within_fire [of key _ c "wkClk wk (wkTicks wk)"]
      by (cases rest) (simp_all add: workerStep_locks(1), simp add: workerStep_def Let_def case_prod_beta ownsAll_def)
  next
    case (Ageing t current es states)
    have "within key c (c\<lparr>cDeduper := fold (\<lambda>k d. DeduperForget d k) (expiredKeys current t (cClearGrace c) [e]) (cDeduper c)\<rparr>)"
      if "owns (objectKey key) (fst e)" for e
      using that expiredKeys_one by (intro within_forgets) blast
    then show ?thesis using ph key Ageing within_active [of key c states]
      by (cases es) (simp_all add: workerStep_def Let_def ageStep_eq)
  next
    case (Dropping ks)
    then show ?thesis using ph key within_forgets [of "[hd ks]" key c] within_active [of key c "[]"]
      by (cases ks) (simp_all add: workerStep_def Let_def)
  qed (use key ph within_forgetPod in \<open>simp_all add: workerStep_def Let_def\<close>)
qed

section \<open>A step reads its own part\<close>

lemma observe_local:
  assumes "mget (rtSeen r) k = mget (rtSeen r') k" "rtWindow r = rtWindow r'" "rtThreshold r = rtThreshold r'"
  shows "snd (observe r k n now) = snd (observe r' k n now)"
    "mget (rtSeen (fst (observe r k n now))) k = mget (rtSeen (fst (observe r' k n now))) k"
  using assms by (simp_all add: observe_result observe_seen)

lemma rapidStep_local:
  assumes "phase_ok key (Observing t pod css out)" "agree key c c'"
  shows "fst (rapidStep p pod wd now cs (out, cTracker c)) = fst (rapidStep p pod wd now cs (out, cTracker c'))"
    "agree key (c\<lparr>cTracker := snd (rapidStep p pod wd now cs (out, cTracker c))\<rparr>)
       (c'\<lparr>cTracker := snd (rapidStep p pod wd now cs (out, cTracker c'))\<rparr>)"
proof -
  let ?k = "(podNamespace pod @ ''/'' @ podName pod) @ ''/'' @ csName cs"
  have same: "mget (rtSeen (cTracker c)) ?k = mget (rtSeen (cTracker c')) ?k"
    "rtWindow (cTracker c) = rtWindow (cTracker c')" "rtThreshold (cTracker c) = rtThreshold (cTracker c')"
    using assms(2) ckey_tracked [OF assms(1), of "csName cs"] unfolding agree_def sameConfig_def by blast+
  note loc = observe_local [OF same, of "csRestartCount cs" now]
  show "fst (rapidStep p pod wd now cs (out, cTracker c)) = fst (rapidStep p pod wd now cs (out, cTracker c'))"
    using loc(1) by (simp add: rapidStep_def Let_def case_prod_beta)
  show "agree key (c\<lparr>cTracker := snd (rapidStep p pod wd now cs (out, cTracker c))\<rparr>)
       (c'\<lparr>cTracker := snd (rapidStep p pod wd now cs (out, cTracker c'))\<rparr>)"
    using assms(2) same unfolding rapidStep_snd agree_def sameConfig_def by (simp add: observe_seen)
qed

lemma fire_local:
  assumes "owns (objectKey key) (Key a)" "agree key c c'"
  shows "snd (DeduperFire (cDeduper c) now a) = snd (DeduperFire (cDeduper c') now a)"
    "agree key (c\<lparr>cDeduper := fst (DeduperFire (cDeduper c) now a)\<rparr>) (c'\<lparr>cDeduper := fst (DeduperFire (cDeduper c') now a)\<rparr>)"
proof -
  have same: "mget (dLastSeen (cDeduper c)) (Key a) = mget (dLastSeen (cDeduper c')) (Key a)"
    "dNext (cDeduper c) = dNext (cDeduper c')" "dResend (cDeduper c) = dResend (cDeduper c')"
    "dCounters (cDeduper c) = dCounters (cDeduper c')"
    using assms unfolding agree_def sameConfig_def by blast+
  have iff: "delivers (cDeduper c) now a \<longleftrightarrow> delivers (cDeduper c') now a" unfolding delivers_def same ..
  then show "snd (DeduperFire (cDeduper c) now a) = snd (DeduperFire (cDeduper c') now a)"
    using same by (cases "delivers (cDeduper c) now a") (simp_all add: DeduperFire_delivers DeduperFire_suppresses)
  show "agree key (c\<lparr>cDeduper := fst (DeduperFire (cDeduper c) now a)\<rparr>) (c'\<lparr>cDeduper := fst (DeduperFire (cDeduper c') now a)\<rparr>)"
    using iff assms(2)
    by (cases "delivers (cDeduper c) now a") (simp_all add: DeduperFire_delivers DeduperFire_suppresses agree_def sameConfig_def)
qed

lemma forgets_local:
  "agree key c c' \<Longrightarrow> agree key (c\<lparr>cDeduper := fold (\<lambda>k d. DeduperForget d k) ks (cDeduper c)\<rparr>)
     (c'\<lparr>cDeduper := fold (\<lambda>k d. DeduperForget d k) ks (cDeduper c')\<rparr>)"
  by (simp add: agree_def sameConfig_def dd.get_fold_del)

lemma active_local:
  "agree key c c' \<Longrightarrow>
     agree key (c\<lparr>cActive := (if s = [] then mdel (cActive c) (objectKey key) else mput (cActive c) (objectKey key) s)\<rparr>)
       (c'\<lparr>cActive := (if s = [] then mdel (cActive c') (objectKey key) else mput (cActive c') (objectKey key) s)\<rparr>)"
  by (simp add: agree_def sameConfig_def)

lemma forgetPod_local:
  "agree key c c' \<Longrightarrow> agree key (c\<lparr>cTracker := forgetPod (cTracker c) p\<rparr>) (c'\<lparr>cTracker := forgetPod (cTracker c') p\<rparr>)"
  by (simp add: agree_def sameConfig_def forgetPod_seen)

lemma startPhase_local:
  assumes "agree key c c'"
  shows "startPhase wk c = startPhase wk c'"
proof -
  have opts: "cOpts c = cOpts c'" using assms by (simp add: agree_def sameConfig_def)
  show ?thesis unfolding startPhase_def opts ..
qed

lemma step_reads_own:
  assumes "worker_ok key wk c" "agree key c c'"
  shows "fst (workerStep wk c) = fst (workerStep wk c') \<and> agree key (snd (workerStep wk c)) (snd (workerStep wk c'))"
proof -
  have key: "wkKey wk = key" and ph: "phase_ok key (wkPhase wk)"
    using assms(1) by (simp_all add: worker_ok_def)
  have opts: "cOpts c = cOpts c'" "cClearGrace c = cClearGrace c'" using assms(2) by (simp_all add: agree_def sameConfig_def)
  show ?thesis
  proof (cases "wkPhase wk")
    case (Observing t pod css out)
    then show ?thesis using ph assms(2) opts rapidStep_local [of key t pod css out c c']
      by (cases css) (simp_all add: workerStep_def Let_def case_prod_beta)
  next
    case (Firing t rest alerts)
    then show ?thesis
      using ph key agree_statesOf [OF assms(2)] fire_local [of key _ c c' "wkClk wk (wkTicks wk)"] assms(2)
      by (cases rest) (simp_all add: workerStep_locks(1), simp add: workerStep_def Let_def case_prod_beta ownsAll_def)
  next
    case (Ageing t current es states)
    then show ?thesis using key opts(2) active_local [OF assms(2), of states] forgets_local [OF assms(2)]
      by (cases es) (simp_all add: workerStep_def Let_def ageStep_eq)
  next
    case Clearing
    then show ?thesis using key assms(2) agree_statesOf [OF assms(2)] by (simp add: workerStep_locks(2))
  next
    case (Dropping ks)
    then show ?thesis using key active_local [OF assms(2), of "[]"] forgets_local [OF assms(2), of "[hd ks]"]
      by (cases ks) (simp_all add: workerStep_def Let_def)
  qed (use key assms(2) forgetPod_local [OF assms(2)] startPhase_local [OF assms(2)]
      in \<open>simp_all add: workerStep_def Let_def\<close>)
qed

section \<open>Workers are independent\<close>

lemma states_owned_statesOf:
  "statesOf c (objectKey key) = statesOf c' (objectKey key) \<Longrightarrow> states_owned key c = states_owned key c'"
  by (simp add: states_owned_def)

lemma active_owned:
  "\<forall>k \<in> set (mkeys s). owns (objectKey key) k \<Longrightarrow>
     states_owned key (c\<lparr>cActive := (if s = [] then mdel (cActive c) (objectKey key) else mput (cActive c) (objectKey key) s)\<rparr>)"
  by (simp add: states_owned_def statesOf_def)

lemma workerStep_fixed [simp]: "wkKey (fst (workerStep wk c)) = wkKey wk" "wkWorld (fst (workerStep wk c)) = wkWorld wk"
  by (simp_all add: workerStep_def Let_def case_prod_beta split: phase.split list.split)

lemma step_keeps_ok:
  assumes "worker_ok key wk c"
  shows "worker_ok key (fst (workerStep wk c)) (snd (workerStep wk c))"
proof -
  have key: "wkKey wk = key" "wf_key key" "states_owned key c" and ph: "phase_ok key (wkPhase wk)"
    using assms by (simp_all add: worker_ok_def)
  have tr: "states_owned key (c\<lparr>cTracker := tr\<rparr>) = states_owned key c"
    "states_owned key (c\<lparr>cDeduper := d\<rparr>) = states_owned key c" for tr d
    by (simp_all add: states_owned_def)
  have "states_owned key (snd (workerStep wk c)) \<and> phase_ok key (wkPhase (fst (workerStep wk c)))"
  proof (cases "wkPhase wk")
    case (Observing t pod css out)
    then show ?thesis using ph key rapidStep_owned [OF key(2), of t pod css out]
      by (cases css) (simp_all add: workerStep_def Let_def case_prod_beta tr)
  next
    case (Firing t rest alerts)
    show ?thesis
    proof (cases rest)
      case Nil
      then show ?thesis using Firing ph key markedStates_owned [OF key(3), of alerts]
        by (auto simp: workerStep_locks(1) mkeys_def)
    next
      case (Cons a rest')
      then show ?thesis using Firing ph key
        by (simp add: workerStep_def Let_def case_prod_beta tr ownsAll_def)
    qed
  next
    case (Ageing t current es states)
    then show ?thesis using ph key active_owned [of states key c] ageOne_keys [of current t "cClearGrace c" "hd es" states]
      by (cases es) (auto simp: workerStep_def Let_def ageStep_eq tr)
  next
    case Clearing
    then show ?thesis using key by (simp add: workerStep_locks(2) states_owned_def)
  next
    case (Dropping ks)
    then show ?thesis using ph key active_owned [of "[]" key c]
      by (cases ks) (simp_all add: workerStep_def Let_def tr mkeys_def)
  qed (use key ph startPhase_ok [OF assms] in \<open>simp_all add: workerStep_def Let_def tr\<close>)
  then show ?thesis using assms by (simp add: worker_ok_def)
qed

interpretation workers: independent_agents workerStep worker_ok agree "\<lambda>i j. wf_key j \<and> i \<noteq> j"
proof unfold_locales
  fix i j wk s t u
  show "agree i s s" by (simp add: agree_def)
  show "agree i s t \<Longrightarrow> agree i t s" by (simp add: agree_def sameConfig_def)
  show "agree i s t \<Longrightarrow> agree i t u \<Longrightarrow> agree i s u" by (simp add: agree_def sameConfig_def)
  show "worker_ok i wk s \<Longrightarrow> agree i s t \<Longrightarrow> worker_ok i wk t"
    using agree_statesOf [of i s t] by (simp add: worker_ok_def states_owned_def)
  show "worker_ok i wk s \<Longrightarrow> worker_ok i (fst (workerStep wk s)) (snd (workerStep wk s))"
    by (rule step_keeps_ok)
  show "worker_ok i wk s \<Longrightarrow> agree i s t \<Longrightarrow>
      fst (workerStep wk s) = fst (workerStep wk t) \<and> agree i (snd (workerStep wk s)) (snd (workerStep wk t))"
    by (rule step_reads_own)
  show "worker_ok i wk s \<Longrightarrow> wf_key j \<and> i \<noteq> j \<Longrightarrow> agree j s (snd (workerStep wk s))"
    using within_agree [OF step_within, of i wk s j] by (simp add: worker_ok_def)
qed

section \<open>Every interleaving acts like reconcile\<close>

lemma alone_finished: "wkPhase wk = Finished e \<Longrightarrow> alone workerStep n wk c = (wk, c)"
  by (induction n) (simp_all add: workerStep_def Let_def)

lemma newWorker_ok:
  assumes "ctrl_inv c" "wf_key key" "lister_ok w"
  shows "worker_ok key (newWorker key w clk) c"
proof -
  have "states_owned key c"
    using assms(1) unfolding states_owned_def ctrl_inv_def
    by (auto simp: gm.set_keys activeOf_statesOf)
  then show ?thesis using assms(2,3) by (simp add: worker_ok_def)
qed

text \<open>
  C13.  Workers do not disturb each other.  Let any number of workers, each on a key of its own,
  take their steps in any order whatsoever, from a state that satisfies the invariant.  Once a
  worker has had enough steps (how many does not depend on the order) it has finished with the
  error \<open>reconcile\<close> returns when it runs alone from that state, it has made the same calls
  in the same order, and the entries of its object in the deduper, the restart tracker and the
  table of active alerts are the ones \<open>reconcile\<close> leaves.  The entries of all objects no
  worker was given are untouched.
\<close>

theorem workers_serializable:
  assumes "ctrl_inv c" "\<forall>k \<in> K. wf_key k \<and> lister_ok (w k)" "key \<in> K"
  shows "\<exists>n. \<forall>sch. set sch \<subseteq> K \<and> n \<le> count_list sch key \<longrightarrow>
     (let (ws, c') = runAll workerStep (\<lambda>k. newWorker k (w k) (clk k)) c sch;
          R = reconcile (\<lambda>i. clk key (i - cTicks c)) (w key) c key
      in wkPhase (ws key) = Finished (snd R) \<and> cOut (fst R) = cOut c @ wkOut (ws key) \<and>
         agree key c' (fst R) \<and> (\<forall>other. wf_key other \<and> other \<notin> K \<longrightarrow> agree other c c'))"
proof -
  let ?ws = "\<lambda>k. newWorker k (w k) (clk k)" and ?R = "reconcile (\<lambda>i. clk key (i - cTicks c)) (w key) c key"
  have ok: "workers.agents_ok K ?ws c"
    using assms(1,2) newWorker_ok by (simp add: workers.agents_ok_def)
  obtain n wk where n: "alone workerStep n (?ws key) c = (wk, (fst ?R)\<lparr>cTicks := cTicks c, cOut := cOut c\<rparr>)"
    and wk: "wkPhase wk = Finished (snd ?R)" "cOut (fst ?R) = cOut c @ wkOut wk"
    using worker_reconciles [of key "w key" "clk key" c] unfolding does_def by blast
  have same: "agree key ((fst ?R)\<lparr>cTicks := m, cOut := out\<rparr>) (fst ?R)" for m out
    by (simp add: agree_def sameConfig_def)
  show ?thesis
  proof (intro exI allI impI)
    fix sch
    assume sch: "set sch \<subseteq> K \<and> n \<le> count_list sch key"
    then obtain m where "count_list sch key = n + m" using le_Suc_ex by blast
    then have "alone workerStep (count_list sch key) (?ws key) c = (wk, (fst ?R)\<lparr>cTicks := cTicks c, cOut := cOut c\<rparr>)"
      by (simp only: alone_add n fst_conv snd_conv alone_finished [OF wk(1)])
    then have own: "fst (runAll workerStep ?ws c sch) key = wk" "agree key (snd (runAll workerStep ?ws c sch)) (fst ?R)"
      using workers.runAll_alone [OF ok _ assms(3), of sch] sch workers.agree_trans [OF _ same] by auto
    have "agree other c (snd (runAll workerStep ?ws c sch))" if "wf_key other" "other \<notin> K" for other
      using workers.runAll_frame [OF ok, of sch other] sch that by blast
    with own wk show "let (ws, c') = runAll workerStep ?ws c sch; R = ?R
        in wkPhase (ws key) = Finished (snd R) \<and> cOut (fst R) = cOut c @ wkOut (ws key) \<and>
           agree key c' (fst R) \<and> (\<forall>other. wf_key other \<and> other \<notin> K \<longrightarrow> agree other c c')"
      by (simp add: case_prod_beta Let_def)
  qed
qed

definition demoNodeKey :: queueKey where
  "demoNodeKey = \<lparr>qkKind = ''Node'', qkNamespace = '''', qkName = ''n1''\<rparr>"

theorem workers_serializable_witness:
  "\<exists>n. \<forall>sch. set sch \<subseteq> {demoKey, demoNodeKey} \<and> n \<le> count_list sch demoKey \<longrightarrow>
     wkPhase (fst (runAll workerStep (\<lambda>k. newWorker k (demoWorld (Found demoPod)) demoClock) demoController sch) demoKey) =
       Finished None"
proof -
  have "ctrl_inv demoController" unfolding demoController_def by (rule New_inv)
  moreover have "\<forall>k \<in> {demoKey, demoNodeKey}. wf_key k \<and> lister_ok (demoWorld (Found demoPod))"
    by (simp add: demoKey_def demoNodeKey_def wf_key_def plain_def)
  moreover have "snd (reconcile clk (demoWorld (Found demoPod)) demoController demoKey) = None" for clk
    by (simp add: reconcile_def reconcilePod_def demoKey_def demoWorld_def timeNow_def case_prod_beta)
  ultimately show ?thesis
    using workers_serializable [of demoController "{demoKey, demoNodeKey}" "\<lambda>_. demoWorld (Found demoPod)" demoKey "\<lambda>_. demoClock"]
    by (fastforce simp: case_prod_beta Let_def)
qed

end
