(* ===== verification/Incident_Spec.thy ===== *)
theory Incident_Spec
  imports Controller_Runs
begin

text \<open>
  What the controller promises, without its tables: a list of incidents per object.  An incident
  is a problem that is present, or absent for less than the grace period, together with the
  time it was last reported.  The controller keeps this in two tables, the active alerts and the
  deduper's records, that different components own; here they are shown to implement the
  single list of incidents, reconcile by reconcile, with the same reports.
\<close>

section \<open>Specification\<close>

datatype condition = Present | AbsentSince time

record incident =
  inCondition :: condition
  inReported :: time

type_synonym incidents = "string \<Rightarrow> string \<Rightarrow> incident option"

text \<open>
  What one look at an object finds: the object is gone, it cannot be read, or it has some
  problems, looked at from \<open>now\<close> on and each raised at its own time.
\<close>

datatype observation = ObjectGone | Unreadable | Problems time "(time \<times> Alert) list"

text \<open>A report is due when the problem is new or was last reported the resend interval ago.\<close>

definition due :: "duration \<Rightarrow> time \<Rightarrow> incident option \<Rightarrow> bool" where
  "due resend t i \<longleftrightarrow> (case i of None \<Rightarrow> True | Some x \<Rightarrow> sint resend \<le> sint (timeSub t (inReported x)))"

definition reportedAt :: "duration \<Rightarrow> time \<Rightarrow> incident option \<Rightarrow> time" where
  "reportedAt resend t i =
     (case i of None \<Rightarrow> t | Some x \<Rightarrow> if due resend t i then t else inReported x)"

text \<open>Each raised problem is present, and reported or held back.\<close>

fun raiseAll :: "duration \<Rightarrow> (time \<times> Alert) list \<Rightarrow> (string \<Rightarrow> incident option) \<Rightarrow>
    (string \<Rightarrow> incident option) \<times> (Alert \<times> bool) list" where
  "raiseAll resend [] m = (m, [])"
| "raiseAll resend ((t, a) # xs) m =
     (case raiseAll resend xs (m(Key a \<mapsto> \<lparr>inCondition = Present, inReported = reportedAt resend t (m (Key a))\<rparr>)) of
        (m', reports) \<Rightarrow> (m', (a, due resend t (m (Key a))) # reports))"

definition subside :: "duration \<Rightarrow> time \<Rightarrow> incident option \<Rightarrow> incident option" where
  "subside grace now i =
     (case i of
        None \<Rightarrow> None
      | Some x \<Rightarrow>
          (case inCondition x of
             Present \<Rightarrow> Some (x\<lparr>inCondition := AbsentSince now\<rparr>)
           | AbsentSince t \<Rightarrow> if sint grace \<le> sint (timeSub now t) then None else Some x))"

fun look :: "duration \<Rightarrow> duration \<Rightarrow> observation \<Rightarrow> (string \<Rightarrow> incident option) \<Rightarrow>
    (string \<Rightarrow> incident option) \<times> (Alert \<times> bool) list" where
  "look resend grace ObjectGone m = (\<lambda>k. None, [])"
| "look resend grace Unreadable m = (m, [])"
| "look resend grace (Problems now xs) m =
     (case raiseAll resend xs m of (m', reports) \<Rightarrow>
        (\<lambda>k. if k \<in> Key ` snd ` set xs then m' k else subside grace now (m k), reports))"

fun specStep :: "duration \<Rightarrow> duration \<Rightarrow> string \<times> observation \<Rightarrow> incidents \<Rightarrow> incidents \<times> (Alert \<times> bool) list" where
  "specStep resend grace (obj, found) T =
     (case look resend grace found (T obj) of (m, reports) \<Rightarrow> (T(obj := m), reports))"

section \<open>The controller's tables as incidents\<close>

definition conditionOf :: "alertState \<Rightarrow> condition" where
  "conditionOf st = (if isFiring st then Present else AbsentSince (clearingSince st))"

definition incidentsOf :: "Controller \<Rightarrow> incidents" where
  "incidentsOf c obj k =
     (case activeOf c obj k of
        None \<Rightarrow> None
      | Some st \<Rightarrow> map_option (\<lambda>t. \<lparr>inCondition = conditionOf st, inReported = t\<rparr>) (mget (dLastSeen (cDeduper c)) k))"

text \<open>What a reconcile observes, with the readings of the clock it takes.\<close>

fun timed :: "(nat \<Rightarrow> time) \<Rightarrow> nat \<Rightarrow> Alert list \<Rightarrow> (time \<times> Alert) list" where
  "timed clk n [] = []"
| "timed clk n (a # as) = (clk n, a) # timed clk (Suc n) as"

definition observed :: "(nat \<Rightarrow> time) \<Rightarrow> item \<Rightarrow> Controller \<Rightarrow> string \<times> observation" where
  "observed clk it c =
     (objectKey (snd it),
      case viewOf clk (fst it) c (snd it) of
        VGone \<Rightarrow> ObjectGone
      | VFailed e \<Rightarrow> Unreadable
      | VAlerts alerts tr \<Rightarrow> Problems (clk (Suc (cTicks c))) (timed clk (Suc (Suc (cTicks c))) alerts))"

definition reconcileStep :: "(nat \<Rightarrow> time) \<Rightarrow> item \<Rightarrow> Controller \<Rightarrow> Controller \<times> call list" where
  "reconcileStep clk it c =
     (fst (reconcile clk (fst it) c (snd it)),
      snd (pipeRun (cDeduper c) (reconcileOps clk (fst it) c (snd it))))"

text \<open>The calls for one raised problem: counted and sent to the sinks, or only counted.\<close>

definition reportCalls :: "Sink \<Rightarrow> Counters option \<Rightarrow> Alert \<times> bool \<Rightarrow> call list" where
  "reportCalls sink counters ar =
     (case ar of (a, reported) \<Rightarrow>
      if reported then (case counters of None \<Rightarrow> [] | Some c \<Rightarrow> cAlertFired c (alReason a) (alSeverity a)) @ sink a
      else (case counters of None \<Rightarrow> [] | Some c \<Rightarrow> cAlertSuppressed c (alReason a)))"

section \<open>Firing\<close>

lemma set_timed [simp]: "snd ` set (timed clk n alerts) = set alerts"
  by (induction alerts arbitrary: n) auto

lemma fire_due:
  assumes "mget (dLastSeen d) (Key a) = map_option inReported i"
  shows "delivers d t a \<longleftrightarrow> due (dResend d) t i"
    "mget (dLastSeen (fst (DeduperFire d t a))) (Key a) = Some (reportedAt (dResend d) t i)"
    "snd (DeduperFire d t a) = reportCalls (dNext d) (dCounters d) (a, due (dResend d) t i)"
proof -
  show eq: "delivers d t a \<longleftrightarrow> due (dResend d) t i"
    using assms by (simp add: delivers_def due_def split: option.splits)
  show "mget (dLastSeen (fst (DeduperFire d t a))) (Key a) = Some (reportedAt (dResend d) t i)"
    using assms eq by (cases "delivers d t a")
      (auto simp: DeduperFire_delivers DeduperFire_suppresses reportedAt_def due_def split: option.splits)
  show "snd (DeduperFire d t a) = reportCalls (dNext d) (dCounters d) (a, due (dResend d) t i)"
    using eq by (cases "delivers d t a")
      (auto simp: DeduperFire_delivers DeduperFire_suppresses reportCalls_def split: option.split)
qed

lemma fire_other: "k \<noteq> Key a \<Longrightarrow> mget (dLastSeen (fst (DeduperFire d t a))) k = mget (dLastSeen d) k"
  by (cases "delivers d t a") (simp_all add: DeduperFire_delivers DeduperFire_suppresses)

lemma fireOps_other:
  "k \<notin> Key ` set alerts \<Longrightarrow> mget (dLastSeen (fst (pipeRun d (fireOps clk n alerts)))) k = mget (dLastSeen d) k"
  by (induction alerts arbitrary: d n) (auto simp: case_prod_beta fire_other)

lemma raise_fires:
  assumes "\<forall>k \<in> K. mget (dLastSeen d) k = map_option inReported (m k)" "Key ` set alerts \<subseteq> K"
  shows "snd (pipeRun d (fireOps clk n alerts)) =
      concat (map (reportCalls (dNext d) (dCounters d)) (snd (raiseAll (dResend d) (timed clk n alerts) m))) \<and>
    (\<forall>k \<in> K. mget (dLastSeen (fst (pipeRun d (fireOps clk n alerts)))) k =
       map_option inReported (fst (raiseAll (dResend d) (timed clk n alerts) m) k))"
  using assms
proof (induction alerts arbitrary: d n m)
  case (Cons a alerts)
  let ?d = "fst (DeduperFire d (clk n) a)"
  let ?m = "m(Key a \<mapsto> \<lparr>inCondition = Present, inReported = reportedAt (dResend d) (clk n) (m (Key a))\<rparr>)"
  have a: "mget (dLastSeen d) (Key a) = map_option inReported (m (Key a))" using Cons.prems by simp
  have "\<forall>k \<in> K. mget (dLastSeen ?d) k = map_option inReported (?m k)"
    using Cons.prems(1) fire_due(2) [OF a] by (simp add: fire_other)
  from Cons.IH [of ?d ?m "Suc n", OF this] Cons.prems(2) fire_due(3) [OF a, of "clk n"] show ?case
    by (simp add: case_prod_beta del: fun_upd_apply)
qed simp

lemma raise_present:
  "k \<in> Key ` snd ` set xs \<or> (\<exists>t. m k = Some \<lparr>inCondition = Present, inReported = t\<rparr>) \<Longrightarrow>
   \<exists>t. fst (raiseAll resend xs m) k = Some \<lparr>inCondition = Present, inReported = t\<rparr>"
proof (induction xs arbitrary: m)
  case (Cons x xs)
  obtain t a where x: "x = (t, a)" by (cases x)
  let ?m = "m(Key a \<mapsto> \<lparr>inCondition = Present, inReported = reportedAt resend t (m (Key a))\<rparr>)"
  have "k \<in> Key ` snd ` set xs \<or> (\<exists>t. ?m k = Some \<lparr>inCondition = Present, inReported = t\<rparr>)"
    using Cons.prems x by auto
  from Cons.IH [of ?m, OF this] show ?case by (simp add: x case_prod_beta del: fun_upd_apply)
qed simp

section \<open>A reconcile implements a step of the specification\<close>

lemma incidents_reported:
  assumes "ctrl_inv c" "owns obj k"
  shows "mget (dLastSeen (cDeduper c)) k = map_option inReported (incidentsOf c obj k)"
proof (cases "mget (dLastSeen (cDeduper c)) k")
  case None
  then show ?thesis by (simp add: incidentsOf_def split: option.split)
next
  case (Some t)
  then have "k \<in> trackedKeys c" using assms(1) unfolding ctrl_inv_def by blast
  then obtain obj' where o: "activeOf c obj' k \<noteq> None" by (auto simp: trackedKeys_def)
  then have "owns obj' k" using assms(1) by (simp add: ctrl_inv_def)
  then have "obj' = obj" using assms(2) by (rule owns_unique)
  then show ?thesis using o Some by (auto simp: incidentsOf_def)
qed

lemma incidents_active:
  assumes "ctrl_inv c" "activeOf c obj k = Some st"
  obtains t where "mget (dLastSeen (cDeduper c)) k = Some t"
    "incidentsOf c obj k = Some \<lparr>inCondition = conditionOf st, inReported = t\<rparr>"
proof -
  have "k \<in> dom (mget (dLastSeen (cDeduper c)))"
    using assms by (auto simp: ctrl_inv_def trackedKeys_def)
  then show ?thesis using that assms(2) by (auto simp: incidentsOf_def)
qed

lemma lastSeen_reconcile:
  assumes "tables_ok c"
  shows "mget (dLastSeen (cDeduper (fst (reconcile clk w c key)))) k =
     (case viewOf clk w c key of
        VGone \<Rightarrow> if activeOf c (objectKey key) k \<noteq> None then None else mget (dLastSeen (cDeduper c)) k
      | VFailed e \<Rightarrow> mget (dLastSeen (cDeduper c)) k
      | VAlerts alerts tr \<Rightarrow>
          if k \<notin> Key ` set alerts \<and>
             (\<exists>st. activeOf c (objectKey key) k = Some st \<and> expired (cClearGrace c) (clk (Suc (cTicks c))) st)
          then None
          else mget (dLastSeen (fst (pipeRun (cDeduper c) (fireOps clk (Suc (Suc (cTicks c))) alerts)))) k)"
proof (cases "viewOf clk w c key")
  case VGone
  have "k \<in> set (mkeys (statesOf c (objectKey key))) \<longleftrightarrow> activeOf c (objectKey key) k \<noteq> None"
    by (auto simp: gm.set_keys activeOf_statesOf)
  with VGone show ?thesis by (simp add: reconcile_pipe reconcileOps_def pipeRun_forgets dd.get_fold_del)
next
  case (VFailed e)
  then show ?thesis by (simp add: reconcile_pipe reconcileOps_def)
next
  case (VAlerts alerts tr)
  then show ?thesis
    using set_droppedKeys [OF tables_ok_states [OF assms], of k "cClearGrace c" "clk (Suc (cTicks c))" alerts "objectKey key"]
    by (auto simp: reconcile_pipe reconcileOps_def deliverOps_def tick_def pipeRun_append pipeRun_forgets
        dd.get_fold_del activeOf_statesOf)
qed

lemma incidents_elsewhere:
  assumes "ctrl_inv c" "wf_key key" "lister_ok w" "obj \<noteq> objectKey key"
  shows "incidentsOf (fst (reconcile clk w c key)) obj = incidentsOf c obj"
proof (rule ext)
  fix k
  have t: "tables_ok c" using assms(1) by (simp add: ctrl_inv_def)
  have same: "activeOf (fst (reconcile clk w c key)) obj k = activeOf c obj k"
    using assms(4) by (subst activeOf_reconcile [OF t]) (auto split: view.split)
  show "incidentsOf (fst (reconcile clk w c key)) obj k = incidentsOf c obj k"
  proof (cases "activeOf c obj k")
    case None
    then show ?thesis using same by (simp add: incidentsOf_def)
  next
    case (Some st)
    then have own: "owns obj k" using assms(1) by (simp add: ctrl_inv_def)
    have there: "activeOf c (objectKey key) k = None"
      using Some assms(4) one_owner [OF assms(1), of obj k "objectKey key"] by (metis option.distinct(1))
    have "k \<notin> Key ` set alerts" if "viewOf clk w c key = VAlerts alerts tr" for alerts tr
      using viewOf_owned [OF that assms(2,3)] own owns_unique assms(4) by blast
    then have "mget (dLastSeen (cDeduper (fst (reconcile clk w c key)))) k = mget (dLastSeen (cDeduper c)) k"
      using there by (auto simp: lastSeen_reconcile [OF t] fireOps_other split: view.split)
    then show ?thesis using Some by (simp add: incidentsOf_def same)
  qed
qed

lemma incidents_gone:
  assumes "viewOf clk w c key = VGone"
  shows "incidentsOf (fst (reconcile clk w c key)) (objectKey key) = (\<lambda>k. None)"
proof -
  have "gone w key" using assms by (simp add: viewOf_gone)
  from gone_clears [OF this] show ?thesis by (simp add: fun_eq_iff incidentsOf_def)
qed

lemma incidents_unreadable:
  assumes "viewOf clk w c key = VFailed e"
  shows "incidentsOf (fst (reconcile clk w c key)) = incidentsOf c"
proof -
  have "incidentsOf (tick c) = incidentsOf c" by (simp add: fun_eq_iff incidentsOf_def activeOf_def tick_def split: option.split)
  then show ?thesis using assms by (simp add: reconcile_view)
qed

lemma activeOf_problems:
  assumes "ctrl_inv c" "viewOf clk w c key = VAlerts alerts tr"
  shows "activeOf (fst (reconcile clk w c key)) (objectKey key) k =
      nextState (cClearGrace c) (clk (Suc (cTicks c))) (k \<in> Key ` set alerts) (activeOf c (objectKey key) k)"
proof -
  have "\<not> gone w key" using assms(2) viewOf_gone [of clk w c key] by simp
  then show ?thesis using assms by (simp add: activeOf_reconcile ctrl_inv_def)
qed

lemma incident_subsides:
  assumes inv: "ctrl_inv c" and view: "viewOf clk w c key = VAlerts alerts tr" and absent: "k \<notin> Key ` set alerts"
    and clock: "\<not> timeIsZero (clk (Suc (cTicks c)))"
  shows "incidentsOf (fst (reconcile clk w c key)) (objectKey key) k =
      subside (cClearGrace c) (clk (Suc (cTicks c))) (incidentsOf c (objectKey key) k)"
proof (cases "activeOf c (objectKey key) k")
  case None
  with absent show ?thesis by (simp add: incidentsOf_def activeOf_problems [OF inv view] nextState_def subside_def)
next
  case (Some st)
  obtain t where t: "mget (dLastSeen (cDeduper c)) k = Some t"
    "incidentsOf c (objectKey key) k = Some \<lparr>inCondition = conditionOf st, inReported = t\<rparr>"
    by (rule incidents_active [OF inv Some])
  have "mget (dLastSeen (cDeduper (fst (reconcile clk w c key)))) k =
      (if expired (cClearGrace c) (clk (Suc (cTicks c))) st then None else Some t)"
    using inv view absent Some t(1) by (simp add: lastSeen_reconcile fireOps_other ctrl_inv_def)
  then show ?thesis
    using absent Some clock
    by (auto simp: t(2) incidentsOf_def [of "fst (reconcile clk w c key)"] activeOf_problems [OF inv view]
        nextState_def subside_def conditionOf_def expired_def isFiring_def)
qed

lemma incidents_problems:
  assumes inv: "ctrl_inv c" "wf_key key" "lister_ok w" and view: "viewOf clk w c key = VAlerts alerts tr"
    and clock: "\<not> timeIsZero (clk (Suc (cTicks c)))"
  shows "incidentsOf (fst (reconcile clk w c key)) (objectKey key) =
      fst (look (dResend (cDeduper c)) (cClearGrace c)
        (Problems (clk (Suc (cTicks c))) (timed clk (Suc (Suc (cTicks c))) alerts)) (incidentsOf c (objectKey key)))"
    and "snd (pipeRun (cDeduper c) (reconcileOps clk w c key)) =
      concat (map (reportCalls (dNext (cDeduper c)) (dCounters (cDeduper c)))
        (snd (look (dResend (cDeduper c)) (cClearGrace c)
          (Problems (clk (Suc (cTicks c))) (timed clk (Suc (Suc (cTicks c))) alerts)) (incidentsOf c (objectKey key)))))"
proof -
  let ?obj = "objectKey key" and ?n = "Suc (Suc (cTicks c))"
  let ?m = "incidentsOf c ?obj"
  let ?r = "raiseAll (dResend (cDeduper c)) (timed clk ?n alerts) ?m"
  have K: "\<forall>k \<in> {k. owns ?obj k}. mget (dLastSeen (cDeduper c)) k = map_option inReported (?m k)"
    using incidents_reported [OF inv(1)] by blast
  have own: "Key ` set alerts \<subseteq> {k. owns ?obj k}" using viewOf_owned [OF view inv(2,3)] by blast
  note fires = raise_fires [OF K own, of clk ?n]
  have "incidentsOf (fst (reconcile clk w c key)) ?obj k = fst ?r k" if k: "k \<in> Key ` set alerts" for k
  proof -
    obtain t where t: "fst ?r k = Some \<lparr>inCondition = Present, inReported = t\<rparr>"
      using raise_present [of k "timed clk ?n alerts" ?m] k by auto
    then have "mget (dLastSeen (cDeduper (fst (reconcile clk w c key)))) k = Some t"
      using inv(1) k fires own view by (auto simp: lastSeen_reconcile ctrl_inv_def)
    then show ?thesis
      using k t by (simp add: incidentsOf_def activeOf_problems [OF inv(1) view] nextState_def conditionOf_def
          isFiring_def firingState_def timeIsZero_def zeroTime_def)
  qed
  then show "incidentsOf (fst (reconcile clk w c key)) ?obj = fst (look (dResend (cDeduper c)) (cClearGrace c)
      (Problems (clk (Suc (cTicks c))) (timed clk ?n alerts)) ?m)"
    using incident_subsides [OF inv(1) view _ clock] by (simp add: fun_eq_iff case_prod_beta)
  show "snd (pipeRun (cDeduper c) (reconcileOps clk w c key)) =
      concat (map (reportCalls (dNext (cDeduper c)) (dCounters (cDeduper c)))
        (snd (look (dResend (cDeduper c)) (cClearGrace c) (Problems (clk (Suc (cTicks c))) (timed clk ?n alerts)) ?m)))"
    using fires view by (simp add: reconcileOps_def deliverOps_def tick_def pipeRun_append pipeRun_forgets case_prod_beta)
qed

section \<open>Runs\<close>

text \<open>The configuration a controller keeps while it runs.\<close>

definition configured :: "Sink \<Rightarrow> duration \<Rightarrow> Counters option \<Rightarrow> duration \<Rightarrow> Controller \<Rightarrow> bool" where
  "configured sink resend counters grace c \<longleftrightarrow> ctrl_inv c \<and> dNext (cDeduper c) = sink \<and>
     dResend (cDeduper c) = resend \<and> dCounters (cDeduper c) = counters \<and> cClearGrace c = grace"

lemma reconcile_configured:
  assumes "configured sink resend counters grace c" "wf_item it"
  shows "configured sink resend counters grace (fst (reconcile clk (fst it) c (snd it)))"
  using assms by (simp add: configured_def wf_item_def reconcile_inv reconcile_pipe(1))

lemma reconcile_specStep:
  assumes "configured sink resend counters grace c" "wf_item it" "\<forall>n. \<not> timeIsZero (clk n)"
  shows "incidentsOf (fst (reconcileStep clk it c)) = fst (specStep resend grace (observed clk it c) (incidentsOf c))"
    "snd (reconcileStep clk it c) =
       concat (map (reportCalls sink counters) (snd (specStep resend grace (observed clk it c) (incidentsOf c))))"
proof -
  obtain w key where it: "it = (w, key)" by (cases it)
  have inv: "ctrl_inv c" "wf_key key" "lister_ok w" using assms(1,2) by (simp_all add: configured_def wf_item_def it)
  have clock: "\<not> timeIsZero (clk (Suc (cTicks c)))" using assms(3) by blast
  note cfg = assms(1) [unfolded configured_def]
  note other = incidents_elsewhere [OF inv]
  have upd: "incidentsOf (fst (reconcile clk w c key)) =
      (incidentsOf c)(objectKey key := incidentsOf (fst (reconcile clk w c key)) (objectKey key))"
    using other by (auto simp: fun_eq_iff)
  show "incidentsOf (fst (reconcileStep clk it c)) = fst (specStep resend grace (observed clk it c) (incidentsOf c))"
    using upd incidents_gone [of clk w c key] incidents_unreadable [of clk w c key]
      incidents_problems(1) [of c key w clk, OF inv _ clock] cfg
    by (cases "viewOf clk w c key") (simp_all add: it reconcileStep_def observed_def case_prod_beta)
  show "snd (reconcileStep clk it c) =
       concat (map (reportCalls sink counters) (snd (specStep resend grace (observed clk it c) (incidentsOf c))))"
    using incidents_problems(2) [of c key w clk, OF inv _ clock] cfg
    by (cases "viewOf clk w c key")
      (simp_all add: it reconcileStep_def observed_def reconcileOps_def pipeRun_forgets case_prod_beta)
qed

interpretation spec: implements "reconcileStep clk" "specStep resend grace" "observed clk" incidentsOf
    "reportCalls sink counters" wf_item "\<lambda>c. configured sink resend counters grace c \<and> (\<forall>n. \<not> timeIsZero (clk n))"
  for clk sink resend counters grace
proof unfold_locales
  fix c it
  assume c: "configured sink resend counters grace c \<and> (\<forall>n. \<not> timeIsZero (clk n))" and it: "wf_item it"
  then have cfg: "configured sink resend counters grace c" and clock: "\<forall>n. \<not> timeIsZero (clk n)" by blast+
  show "configured sink resend counters grace (fst (reconcileStep clk it c)) \<and> (\<forall>n. \<not> timeIsZero (clk n))"
    using reconcile_configured [OF cfg it] clock by (simp add: reconcileStep_def)
  show "incidentsOf (fst (reconcileStep clk it c)) = fst (specStep resend grace (observed clk it c) (incidentsOf c))"
    "snd (reconcileStep clk it c) =
       concat (map (reportCalls sink counters) (snd (specStep resend grace (observed clk it c) (incidentsOf c))))"
    by (rule reconcile_specStep [OF cfg it clock])+
qed

lemma runOut_ctrlRun:
  "fst (runOut (reconcileStep clk) items c) = ctrlRun clk c items \<and>
   cOut (ctrlRun clk c items) = cOut c @ snd (runOut (reconcileStep clk) items c)"
proof (induction items arbitrary: c)
  case (Cons it items)
  obtain w key where it: "it = (w, key)" by (cases it)
  show ?case
    using Cons [of "fst (reconcile clk w c key)"] by (simp add: it reconcileStep_def case_prod_beta reconcile_pipe(2))
qed simp

lemma New_configured:
  "configured sink resend counters (cClearGrace (New opts (NewDeduper sink resend counters) m))
     (New opts (NewDeduper sink resend counters) m)"
proof -
  have "ctrl_inv (New opts (NewDeduper sink resend counters) m)" by (rule New_inv)
  then show ?thesis by (simp add: configured_def New_def Let_def NewDeduper_def)
qed

lemma New_incidents: "incidentsOf (New opts (NewDeduper sink resend counters) m) = (\<lambda>_ _. None)"
  by (simp add: fun_eq_iff incidentsOf_def activeOf_def New_def Let_def)

text \<open>
  C4.  Refinement.  Over any history of reconciles the controller, with its table of active alerts,
  its grace periods and the deduper's records, does what a single list of incidents does: starting
  from no incidents, its tables always abstract to the incidents of the specification, and all
  the calls it makes are, in order, those for the reports the specification decides on.
\<close>

theorem controller_implements_incidents:
  assumes "c = New opts (NewDeduper sink resend counters) m" "list_all wf_item items" "\<forall>n. \<not> timeIsZero (clk n)"
  shows "incidentsOf (ctrlRun clk c items) =
       fst (runOut (specStep resend (cClearGrace c)) (inputsSeen (reconcileStep clk) (observed clk) items c) (\<lambda>_ _. None)) \<and>
     cOut (ctrlRun clk c items) = concat (map (reportCalls sink counters)
       (snd (runOut (specStep resend (cClearGrace c)) (inputsSeen (reconcileStep clk) (observed clk) items c) (\<lambda>_ _. None))))"
proof -
  have cfg: "configured sink resend counters (cClearGrace c) c" unfolding assms(1) by (rule New_configured)
  have "incidentsOf c = (\<lambda>_ _. None)" unfolding assms(1) by (rule New_incidents)
  moreover have "cOut c = []" by (simp add: assms(1) New_def Let_def)
  ultimately show ?thesis
    using spec.run_implements [OF conjI [OF cfg assms(3)] assms(2)] runOut_ctrlRun [of clk items c] by simp
qed

theorem controller_implements_incidents_witness:
  "incidentsOf demoRun = fst (runOut (specStep (10 * Minute) (cClearGrace demoController))
     [observed demoClock (demoWorld (Found demoPod), demoKey) demoController] (\<lambda>_ _. None))"
proof -
  have wf: "list_all wf_item [(demoWorld (Found demoPod), demoKey)]" by (simp add: wf_item_def)
  have clock: "\<forall>n. \<not> timeIsZero (demoClock n)" by (simp add: timeIsZero_def demoClock_def)
  from controller_implements_incidents [OF demoController_def wf clock] show ?thesis by (simp add: demoRun_def)
qed

end
