(* ===== verification/Queue_Delivery.thy ===== *)
theory Queue_Delivery
  imports Controller_Queue
begin

text \<open>
  From a notification to a reconcile: no change an informer reports is lost, not even one that
  is still in the queue when the program is told to stop, and \<^verbatim>\<open>Run\<close> returns with the queue empty.
  The queue is client-go's; the laws say what it holds and for how long.
\<close>

section \<open>What the queue holds\<close>

text \<open>
  \<open>waiting q\<close> are the keys added and not handed out since, \<open>busy q\<close> those handed out and not
  done.  A key stays waiting until \<open>Get\<close> returns it, and \<open>Get\<close> returns nothing only when every
  waiting key is being worked on.  A queue that is not closed takes every key.
\<close>

definition hold_laws ::
  "'q workqueue \<Rightarrow> ('q \<Rightarrow> 'q) \<Rightarrow> ('q \<Rightarrow> bool) \<Rightarrow> ('q \<Rightarrow> queueKey set) \<Rightarrow> ('q \<Rightarrow> queueKey set) \<Rightarrow> bool"
where
  "hold_laws wq shutDown closed waiting busy \<longleftrightarrow>
     (\<forall>k q. closed (qAdd wq k q) = closed q \<and> busy (qAdd wq k q) = busy q \<and>
        waiting q \<subseteq> waiting (qAdd wq k q) \<and> (\<not> closed q \<longrightarrow> k \<in> waiting (qAdd wq k q))) \<and>
     (\<forall>k q. closed (qAddRateLimited wq k q) = closed q \<and> busy (qAddRateLimited wq k q) = busy q \<and>
        waiting q \<subseteq> waiting (qAddRateLimited wq k q)) \<and>
     (\<forall>k q. closed (qForget wq k q) = closed q \<and> busy (qForget wq k q) = busy q \<and>
        waiting q \<subseteq> waiting (qForget wq k q)) \<and>
     (\<forall>k q. closed (qDone wq k q) = closed q \<and> busy (qDone wq k q) \<subseteq> busy q - {k} \<and>
        waiting q \<subseteq> waiting (qDone wq k q)) \<and>
     (\<forall>q. closed (snd (qGet wq q)) = closed q) \<and>
     (\<forall>k q q'. qGet wq q = (Some k, q') \<longrightarrow> busy q' \<subseteq> insert k (busy q) \<and> waiting q - {k} \<subseteq> waiting q') \<and>
     (\<forall>q q'. qGet wq q = (None, q') \<longrightarrow> busy q' \<subseteq> busy q \<and> waiting q \<subseteq> waiting q' \<and> waiting q \<subseteq> busy q) \<and>
     (\<forall>q. busy (shutDown q) = busy q \<and> waiting q \<subseteq> waiting (shutDown q))"

lemma listQueue_hold:
  "hold_laws listQueueOps listShutDown (\<lambda>q. snd (snd q)) (\<lambda>q. set (fst q)) (\<lambda>_. {})"
  by (auto simp: hold_laws_def listQueueOps_def listShutDown_def split: list.splits)

lemma hold_get:
  assumes "hold_laws wq shutDown closed waiting busy" "qGet wq q = (r, q')"
  shows "closed q' = closed q"
    "r = Some k \<Longrightarrow> busy q' \<subseteq> insert k (busy q) \<and> waiting q - {k} \<subseteq> waiting q'"
    "r = None \<Longrightarrow> busy q' \<subseteq> busy q \<and> waiting q \<subseteq> waiting q' \<and> waiting q \<subseteq> busy q"
proof -
  have "closed (snd (qGet wq q)) = closed q" using assms(1) unfolding hold_laws_def by blast
  then show "closed q' = closed q" by (simp only: assms(2) snd_conv)
  show "r = Some k \<Longrightarrow> busy q' \<subseteq> insert k (busy q) \<and> waiting q - {k} \<subseteq> waiting q'"
    using assms unfolding hold_laws_def by blast
  show "r = None \<Longrightarrow> busy q' \<subseteq> busy q \<and> waiting q \<subseteq> waiting q' \<and> waiting q \<subseteq> busy q"
    using assms unfolding hold_laws_def by blast
qed

lemma hold_put:
  assumes "hold_laws wq shutDown closed waiting busy"
  shows "closed (qAddRateLimited wq k q) = closed q" "busy (qAddRateLimited wq k q) = busy q"
    "waiting q \<subseteq> waiting (qAddRateLimited wq k q)"
    "closed (qForget wq k q) = closed q" "busy (qForget wq k q) = busy q" "waiting q \<subseteq> waiting (qForget wq k q)"
    "closed (qDone wq k q) = closed q" "busy (qDone wq k q) \<subseteq> busy q - {k}" "waiting q \<subseteq> waiting (qDone wq k q)"
    "closed (qAdd wq k q) = closed q" "busy (qAdd wq k q) = busy q" "waiting q \<subseteq> waiting (qAdd wq k q)"
    "\<not> closed q \<Longrightarrow> k \<in> waiting (qAdd wq k q)"
    "busy (shutDown q) = busy q" "waiting q \<subseteq> waiting (shutDown q)"
  using assms by (simp_all add: hold_laws_def)

text \<open>One iteration of a worker hands the key out or leaves it waiting, and ends with nothing in hand.\<close>

lemma processNext_holds:
  assumes "hold_laws wq shutDown closed waiting busy" "busy q = {}" "processNext wq clk w (c, q) = (b, c', q')"
  shows "closed q' = closed q" "busy q' = {}" "\<not> b \<longrightarrow> waiting q = {}"
    "k \<in> waiting q \<longrightarrow> fst (qGet wq q) = Some k \<or> k \<in> waiting q'"
proof -
  note hold = assms(1)
  obtain r q1 where get: "qGet wq q = (r, q1)" by fastforce
  have "closed q' = closed q \<and> busy q' = {} \<and> (\<not> b \<longrightarrow> waiting q = {}) \<and>
      (k \<in> waiting q \<longrightarrow> fst (qGet wq q) = Some k \<or> k \<in> waiting q')"
  proof (cases r)
    case None
    then have "q' = q1" using assms(3) get by (simp add: processNext_none)
    then show ?thesis using hold_get(1) [OF hold get] hold_get(3) [OF hold get None] assms(2) by blast
  next
    case (Some key)
    define q2 where "q2 = (if fails w key \<and> qNumRequeues wq key q1 < 5 then qAddRateLimited wq key q1 else qForget wq key q1)"
    have q': "q' = qDone wq key q2" and b
      using processNext_some(1,2) [OF get [unfolded Some], of clk w c] assms(3) by (simp_all add: q2_def)
    have 1: "closed q1 = closed q" "busy q1 \<subseteq> {key} \<and> waiting q - {key} \<subseteq> waiting q1"
      using hold_get(1) [OF hold get] hold_get(2) [OF hold get Some] assms(2) by blast+
    have 2: "closed q2 = closed q1" "busy q2 = busy q1" "waiting q1 \<subseteq> waiting q2"
      by (simp_all add: q2_def hold_put [OF hold])
    have 3: "closed q' = closed q2" "busy q' \<subseteq> busy q2 - {key}" "waiting q2 \<subseteq> waiting q'"
      unfolding q' by (rule hold_put [OF hold])+
    have "closed q' = closed q" "busy q' = {}" "waiting q - {key} \<subseteq> waiting q'" using 1 2 3 by blast+
    then show ?thesis using \<open>b\<close> get Some by auto
  qed
  then show "closed q' = closed q" "busy q' = {}" "\<not> b \<longrightarrow> waiting q = {}"
    "k \<in> waiting q \<longrightarrow> fst (qGet wq q) = Some k \<or> k \<in> waiting q'" by blast+
qed

section \<open>Notifications\<close>

text \<open>The key a notification is about, if it is about one.\<close>

fun changedObject :: "'o notification \<Rightarrow> 'o informerObj option" where
  "changedObject (AddFunc obj) = Some obj"
| "changedObject (UpdateFunc old obj) = Some obj"
| "changedObject (DeleteFunc obj) = Some obj"
| "changedObject (WatchErrorHandler err) = None"

definition announcedKey ::
  "('o \<Rightarrow> string option) \<Rightarrow> (string \<Rightarrow> string \<times> string) \<Rightarrow> bool \<Rightarrow> 'o sys_event \<Rightarrow> queueKey option"
where
  "announcedKey keyFunc splitKey watchNodes e =
     (case e of
        PodNotified n \<Rightarrow>
          map_option (\<lambda>key. \<lparr>qkKind = ''Pod'', qkNamespace = fst (splitKey key), qkName = snd (splitKey key)\<rparr>)
            (Option.bind (changedObject n) (metaNamespaceKey keyFunc))
      | NodeNotified n \<Rightarrow>
          if watchNodes then
            map_option (\<lambda>key. \<lparr>qkKind = ''Node'', qkNamespace = '''', qkName = snd (splitKey key)\<rparr>)
              (Option.bind (changedObject n) (metaNamespaceKey keyFunc))
          else None
      | _ \<Rightarrow> None)"

lemma podNotified_queue:
  "snd (podNotified wq kf sk n (c, q)) =
     (case announcedKey kf sk b (PodNotified n) of None \<Rightarrow> q | Some k \<Rightarrow> qAdd wq k q)"
  by (cases n)
    (simp_all add: podNotified_def announcedKey_def enqueuePod_def case_prod_beta split: option.split)

lemma nodeNotified_queue:
  "snd (nodeNotified wq kf sk n (c, q)) =
     (case announcedKey kf sk (oWatchNodes (cOpts c)) (NodeNotified n) of None \<Rightarrow> q | Some k \<Rightarrow> qAdd wq k q)"
  by (cases n)
    (simp_all add: nodeNotified_def announcedKey_def enqueueNode_def case_prod_beta split: option.split)

text \<open>
  Whatever happens, a waiting key is taken by a worker or still waiting, nobody has a key in
  hand between two events, and only \<open>ShutDown\<close> closes the queue.
\<close>

lemma add_holds:
  assumes "hold_laws wq shutDown closed waiting busy"
  shows "closed (case ko of None \<Rightarrow> q | Some k \<Rightarrow> qAdd wq k q) = closed q"
    "busy (case ko of None \<Rightarrow> q | Some k \<Rightarrow> qAdd wq k q) = busy q"
    "waiting q \<subseteq> waiting (case ko of None \<Rightarrow> q | Some k \<Rightarrow> qAdd wq k q)"
  using hold_put [OF assms] by (cases ko; simp)+

lemma sysStep_holds:
  assumes "hold_laws wq shutDown closed waiting busy" "busy (snd s) = {}"
  shows "closed (snd (sysStep wq clk kf sk e s)) = closed (snd s)" "busy (snd (sysStep wq clk kf sk e s)) = {}"
    "k \<in> waiting (snd s) \<Longrightarrow> 0 < attempts wq clk kf sk k [e] s \<or> k \<in> waiting (snd (sysStep wq clk kf sk e s))"
proof -
  obtain c q where s: "s = (c, q)" by (cases s)
  note add = add_holds [OF assms(1)]
  have "closed (snd (sysStep wq clk kf sk e s)) = closed (snd s) \<and> busy (snd (sysStep wq clk kf sk e s)) = {} \<and>
    (k \<in> waiting (snd s) \<longrightarrow> 0 < attempts wq clk kf sk k [e] s \<or> k \<in> waiting (snd (sysStep wq clk kf sk e s)))"
  proof (cases e)
    case (ProcessNext w)
    obtain b c' q' where step: "processNext wq clk w (c, q) = (b, c', q')" by (metis prod.exhaust)
    have "busy q = {}" using assms(2) by (simp add: s)
    note after = processNext_holds(1,2,4) [OF assms(1) this step]
    show ?thesis using after(1,2) after(3) [of k] by (auto simp: ProcessNext s step)
  next
    case (PodNotified n)
    show ?thesis using assms(2) add [where ko = "announcedKey kf sk True e" and q = q]
      by (auto simp: PodNotified s podNotified_queue [where b = True])
  next
    case (NodeNotified n)
    show ?thesis using assms(2) add [where ko = "announcedKey kf sk (oWatchNodes (cOpts c)) e" and q = q]
      by (auto simp: NodeNotified s nodeNotified_queue)
  next
    case (Tick w)
    then show ?thesis using assms(2) by (simp add: s)
  qed
  then show "closed (snd (sysStep wq clk kf sk e s)) = closed (snd s)" "busy (snd (sysStep wq clk kf sk e s)) = {}"
    "k \<in> waiting (snd s) \<Longrightarrow> 0 < attempts wq clk kf sk k [e] s \<or> k \<in> waiting (snd (sysStep wq clk kf sk e s))"
    by blast+
qed

lemma attempts_Cons:
  "attempts wq clk kf sk k (e # es) s = attempts wq clk kf sk k [e] s + attempts wq clk kf sk k es (sysStep wq clk kf sk e s)"
  by simp

lemma events_hold:
  assumes "hold_laws wq shutDown closed waiting busy" "busy (snd s) = {}"
  shows "closed (snd (fold (sysStep wq clk kf sk) es s)) = closed (snd s) \<and>
     busy (snd (fold (sysStep wq clk kf sk) es s)) = {} \<and>
     (k \<in> waiting (snd s) \<longrightarrow>
        0 < attempts wq clk kf sk k es s \<or> k \<in> waiting (snd (fold (sysStep wq clk kf sk) es s)))"
  using assms(2)
proof (induction es arbitrary: s)
  case (Cons e es)
  define s' n where "s' = sysStep wq clk kf sk e s" and "n = attempts wq clk kf sk k [e] s"
  have step: "closed (snd s') = closed (snd s)" "busy (snd s') = {}" "k \<in> waiting (snd s) \<Longrightarrow> 0 < n \<or> k \<in> waiting (snd s')"
    unfolding s'_def n_def by (rule sysStep_holds [OF assms(1) Cons.prems]; assumption?)+
  have att: "attempts wq clk kf sk k (e # es) s = n + attempts wq clk kf sk k es s'"
    unfolding s'_def n_def by (rule attempts_Cons)
  have run: "fold (sysStep wq clk kf sk) (e # es) s = fold (sysStep wq clk kf sk) es s'" by (simp add: s'_def)
  show ?case unfolding att run using Cons.IH [OF step(2)] step(1,3) by auto
qed simp

lemma announced_waits:
  assumes "hold_laws wq shutDown closed waiting busy" "\<not> closed q"
    and "announcedKey kf sk (oWatchNodes (cOpts c)) e = Some k"
  shows "k \<in> waiting (snd (sysStep wq clk kf sk e (c, q)))"
proof (cases e)
  case (PodNotified n)
  then show ?thesis
    using assms(3) hold_put(13) [OF assms(1,2)] by (simp add: podNotified_queue [where b = "oWatchNodes (cOpts c)"])
next
  case (NodeNotified n)
  then show ?thesis using assms(3) hold_put(13) [OF assms(1,2)] by (simp add: nodeNotified_queue)
qed (use assms(3) in \<open>simp_all add: announcedKey_def\<close>)

section \<open>Draining\<close>

text \<open>How often the pool takes the key \<open>k\<close>.\<close>

fun poolAttempts ::
  "'q workqueue \<Rightarrow> (nat \<Rightarrow> time) \<Rightarrow> queueKey \<Rightarrow> (nat \<times> world) list \<Rightarrow> nat set \<times> Controller \<times> 'q \<Rightarrow> nat"
where
  "poolAttempts wq clk k [] s = 0"
| "poolAttempts wq clk k (t # sch) s =
     (if fst t \<in> fst s \<and> fst (qGet wq (snd (snd s))) = Some k then 1 else 0)
       + poolAttempts wq clk k sch (workerTurn wq clk t s)"

text \<open>A pool whose workers have all returned has taken every key that was waiting.\<close>

lemma pool_takes:
  assumes "hold_laws wq shutDown closed waiting busy" "busy q = {}" "k \<in> waiting q" "R \<noteq> {}"
    and "fst (workerPool wq clk sch (R, c, q)) = {}"
  shows "0 < poolAttempts wq clk k sch (R, c, q)"
  using assms(2-)
proof (induction sch arbitrary: R c q)
  case (Cons t sch)
  obtain j w where t: "t = (j, w)" by (cases t)
  show ?case
  proof (rule workerTurn_cases [of wq clk j w R c q])
    assume "workerTurn wq clk (j, w) (R, c, q) = (R, c, q)" "j \<notin> R"
    then show ?thesis using Cons.IH [of q R c] Cons.prems by (simp add: t workerPool_def del: workerTurn.simps)
  next
    fix b c' q'
    assume turn: "workerTurn wq clk (j, w) (R, c, q) = (if b then R else R - {j}, c', q')"
      "processNext wq clk w (c, q) = (b, c', q')" "j \<in> R"
    note step = processNext_holds [OF assms(1) Cons.prems(1) turn(2)]
    show ?thesis
    proof (cases "fst (qGet wq q) = Some k")
      case True
      then show ?thesis using turn(3) by (simp add: t del: workerTurn.simps)
    next
      case False
      then have "k \<in> waiting q'" "b" using step(3) step(4) [of k] Cons.prems(2) by auto
      then show ?thesis
        using Cons.IH [of q' R c'] step(2) Cons.prems(3,4) turn(1) by (simp add: t workerPool_def del: workerTurn.simps)
    qed
  qed
qed (simp add: workerPool_def)

section \<open>No notification is lost\<close>

text \<open>The states between the parts of \<^verbatim>\<open>Run\<close>: when the workers start, and when they begin to drain.\<close>

definition runStart ::
  "'q workqueue \<Rightarrow> (nat \<Rightarrow> time) \<Rightarrow> ('o \<Rightarrow> string option) \<Rightarrow> (string \<Rightarrow> string \<times> string) \<Rightarrow>
   'o sys_event list \<Rightarrow> Controller \<times> 'q \<Rightarrow> Controller \<times> 'q"
where
  "runStart wq clk keyFunc splitKey early cq =
     (case cq of (c, q) \<Rightarrow>
      let c = emit c [LogAttrs LevelInfo ''starting informers''
                [(''namespace'', nsForLog (oNamespace (cOpts c))),
                 (''watchNodes'', boolString (oWatchNodes (cOpts c))),
                 (''resync'', durationString (oResyncPeriod (cOpts c)))]];
          (c, q) = fold (sysStep wq clk keyFunc splitKey) (filter isNotification early) (c, q);
          c = emit c [LogAttrs LevelInfo ''informer caches synced'' []]
      in (c\<lparr>cMetrics := SetReady (cMetrics c) True\<rparr>, q))"

definition drainStart ::
  "'q workqueue \<Rightarrow> ('q \<Rightarrow> 'q) \<Rightarrow> (nat \<Rightarrow> time) \<Rightarrow> ('o \<Rightarrow> string option) \<Rightarrow> (string \<Rightarrow> string \<times> string) \<Rightarrow>
   'o sys_event list \<Rightarrow> Controller \<times> 'q \<Rightarrow> Controller \<times> 'q"
where
  "drainStart wq shutDown clk keyFunc splitKey events s =
     (case fold (sysStep wq clk keyFunc splitKey) events s of (c, q) \<Rightarrow>
        (emit c [LogAttrs LevelInfo ''shutdown signal received, draining work queue'' []], shutDown q))"

lemma runStart_eq:
  obtains s0 where "cOpts (fst s0) = cOpts c" "snd s0 = q"
    "runStart wq clk kf sk early (c, q) =
       (case fold (sysStep wq clk kf sk) (filter isNotification early) s0 of (c, q) \<Rightarrow>
         ((emit c [LogAttrs LevelInfo ''informer caches synced'' []])\<lparr>cMetrics := SetReady (cMetrics c) True\<rparr>, q))"
  by (rule that [of "(emit c [LogAttrs LevelInfo ''starting informers''
                [(''namespace'', nsForLog (oNamespace (cOpts c))),
                 (''watchNodes'', boolString (oWatchNodes (cOpts c))),
                 (''resync'', durationString (oResyncPeriod (cOpts c)))]], q)"])
    (simp_all add: runStart_def Let_def emit_def case_prod_beta)

lemma runStart_opts: "cOpts (fst (runStart wq clk kf sk early (c, q))) = cOpts c"
proof -
  obtain s0 where "cOpts (fst s0) = cOpts c"
    "runStart wq clk kf sk early (c, q) =
       (case fold (sysStep wq clk kf sk) (filter isNotification early) s0 of (c, q) \<Rightarrow>
         ((emit c [LogAttrs LevelInfo ''informer caches synced'' []])\<lparr>cMetrics := SetReady (cMetrics c) True\<rparr>, q))"
    by (rule runStart_eq)
  then show ?thesis
    using fold_sysStep_opts [of wq clk kf sk "filter isNotification early" s0] by (simp add: case_prod_beta emit_def)
qed

lemma Run_parts:
  "Run wq shutDown clk keyFunc splitKey early True events sch (c, q) =
     (case workerPool wq clk sch (workersOf (cOpts c),
        drainStart wq shutDown clk keyFunc splitKey events (runStart wq clk keyFunc splitKey early (c, q))) of
        (running, c, q) \<Rightarrow> if running \<noteq> {} then (StillDraining, c, q) else (Returned None, c, shutDown q))"
  using runStart_opts [of wq clk keyFunc splitKey early c q]
  by (simp add: Run_def drainStart_def runStart_def emit_def Let_def case_prod_beta)

lemma drainStart_append:
  "drainStart wq shutDown clk kf sk (past @ future) s = drainStart wq shutDown clk kf sk future (fold (sysStep wq clk kf sk) past s)"
  by (simp add: drainStart_def)

lemma drainStart_holds:
  assumes "drain_laws wq shutDown closed work" "hold_laws wq shutDown closed waiting busy" "busy (snd s) = {}"
  shows "busy (snd (drainStart wq shutDown clk kf sk events s)) = {}"
    "closed (snd (drainStart wq shutDown clk kf sk events s))"
    "waiting (snd (fold (sysStep wq clk kf sk) events s)) \<subseteq> waiting (snd (drainStart wq shutDown clk kf sk events s))"
  using assms events_hold [OF assms(2,3), of clk kf sk events] hold_put(14,15) [OF assms(2)]
  by (simp_all add: drainStart_def case_prod_beta drain_laws_def)

text \<open>The first notifications are only put on the queue.\<close>

lemma attempts_notifications: "attempts wq clk kf sk k (filter isNotification es) s = 0"
proof (induction es arbitrary: s)
  case (Cons e es)
  then show ?case by (cases e) simp_all
qed simp

lemma runStart_holds:
  assumes "hold_laws wq shutDown closed waiting busy" "busy q = {}"
  shows "closed (snd (runStart wq clk kf sk early (c, q))) = closed q"
    "busy (snd (runStart wq clk kf sk early (c, q))) = {}"
    "\<not> closed q \<Longrightarrow> e \<in> set early \<Longrightarrow> isNotification e \<Longrightarrow> announcedKey kf sk (oWatchNodes (cOpts c)) e = Some k \<Longrightarrow>
      k \<in> waiting (snd (runStart wq clk kf sk early (c, q)))"
proof -
  let ?fold = "fold (sysStep wq clk kf sk)"
  obtain s0 where s0: "cOpts (fst s0) = cOpts c" "snd s0 = q"
    and run: "runStart wq clk kf sk early (c, q) =
       (case ?fold (filter isNotification early) s0 of (c, q) \<Rightarrow>
         ((emit c [LogAttrs LevelInfo ''informer caches synced'' []])\<lparr>cMetrics := SetReady (cMetrics c) True\<rparr>, q))"
    by (rule runStart_eq)
  have q: "snd (runStart wq clk kf sk early (c, q)) = snd (?fold (filter isNotification early) s0)"
    by (simp add: run case_prod_beta)
  note held = events_hold [OF assms(1), of s0 clk kf sk "filter isNotification early", unfolded s0(2), OF assms(2)]
  show "closed (snd (runStart wq clk kf sk early (c, q))) = closed q"
    "busy (snd (runStart wq clk kf sk early (c, q))) = {}"
    using held unfolding q by blast+
  assume e: "\<not> closed q" "e \<in> set early" "isNotification e" "announcedKey kf sk (oWatchNodes (cOpts c)) e = Some k"
  then obtain xs ys where early: "early = xs @ e # ys" by (meson split_list)
  obtain c1 q1 where 1: "?fold (filter isNotification xs) s0 = (c1, q1)" by (metis prod.exhaust)
  have "\<not> closed q1" "busy q1 = {}"
    using events_hold [OF assms(1), of s0 clk kf sk "filter isNotification xs"] s0(2) assms(2) e(1) 1 by simp_all
  moreover have "cOpts c1 = cOpts c"
    using fold_sysStep_opts [of wq clk kf sk "filter isNotification xs" s0] s0(1) 1 by simp
  ultimately have "k \<in> waiting (snd (sysStep wq clk kf sk e (c1, q1)))" "busy (snd (sysStep wq clk kf sk e (c1, q1))) = {}"
    using announced_waits [OF assms(1), of q1 kf sk c1 e k clk] sysStep_holds(2) [OF assms(1), of "(c1, q1)" clk kf sk e] e(4)
    by simp_all
  then have "k \<in> waiting (snd (?fold (filter isNotification ys) (sysStep wq clk kf sk e (c1, q1))))"
    using events_hold [OF assms(1), of "sysStep wq clk kf sk e (c1, q1)" clk kf sk "filter isNotification ys" k]
    by (simp add: attempts_notifications)
  then show "k \<in> waiting (snd (runStart wq clk kf sk early (c, q)))"
    unfolding q using e(3) 1 by (simp add: early)
qed

text \<open>
  How often the workers take \<open>k\<close> after the notifications \<open>early\<close> and the events \<open>past\<close>: during
  \<open>future\<close> and while draining.
\<close>

definition takenAfter ::
  "'q workqueue \<Rightarrow> ('q \<Rightarrow> 'q) \<Rightarrow> (nat \<Rightarrow> time) \<Rightarrow> ('o \<Rightarrow> string option) \<Rightarrow> (string \<Rightarrow> string \<times> string) \<Rightarrow>
   'o sys_event list \<Rightarrow> 'o sys_event list \<Rightarrow> 'o sys_event list \<Rightarrow> (nat \<times> world) list \<Rightarrow> Controller \<times> 'q \<Rightarrow> queueKey \<Rightarrow> nat"
where
  "takenAfter wq shutDown clk keyFunc splitKey early past future sch cq k =
     (let s = fold (sysStep wq clk keyFunc splitKey) past (runStart wq clk keyFunc splitKey early cq)
      in attempts wq clk keyFunc splitKey k future s +
         poolAttempts wq clk k sch (workersOf (cOpts (fst cq)), drainStart wq shutDown clk keyFunc splitKey future s))"

text \<open>A key that waits at some moment is taken after it, and \<^verbatim>\<open>Run\<close> returns only then.\<close>

lemma waiting_taken:
  assumes "drain_laws wq shutDown closed work" "hold_laws wq shutDown closed waiting busy" "workersOf (cOpts c) \<noteq> {}"
    and s: "s = fold (sysStep wq clk kf sk) past (runStart wq clk kf sk early (c, q0))"
    and "busy (snd s) = {}" "k \<in> waiting (snd s)"
  shows "\<exists>n. \<forall>sch. enoughTurns n (workersOf (cOpts c)) sch \<longrightarrow>
     fst (Run wq shutDown clk kf sk early True (past @ future) sch (c, q0)) = Returned None \<and>
     0 < takenAfter wq shutDown clk kf sk early past future sch (c, q0) k"
proof -
  let ?R = "workersOf (cOpts c)"
  obtain c' q where start: "drainStart wq shutDown clk kf sk future s = (c', q)" by fastforce
  have q: "busy q = {}" "closed q" "0 < attempts wq clk kf sk k future s \<or> k \<in> waiting q"
    using drainStart_holds [OF assms(1,2,5), of clk kf sk future] events_hold [OF assms(2,5), of clk kf sk future k]
      assms(6) start by auto
  show ?thesis
  proof (intro exI [of _ "work q"] allI impI)
    fix sch assume "enoughTurns (work q) ?R sch"
    then have ends: "fst (workerPool wq clk sch (?R, c', q)) = {}" by (rule workerPool_drains [OF assms(1) q(2)])
    have "0 < poolAttempts wq clk k sch (?R, c', q)" if "k \<in> waiting q"
      using assms(2) q(1) that assms(3) ends by (rule pool_takes)
    then have taken: "0 < attempts wq clk kf sk k future s + poolAttempts wq clk k sch (?R, c', q)"
      using q(3) by (metis add_gr_0)
    show "fst (Run wq shutDown clk kf sk early True (past @ future) sch (c, q0)) = Returned None \<and>
        0 < takenAfter wq shutDown clk kf sk early past future sch (c, q0) k"
      unfolding Run_parts takenAfter_def drainStart_append s [symmetric] start fst_conv Let_def
      using ends taken by (simp add: case_prod_beta)
  qed
qed

text \<open>
  C15.  No change is lost.  Whenever an informer reports a change of an object the program watches,
  however the workers, other notifications and the shutdown fall, a worker takes the
  object's key after that: before \<^verbatim>\<open>Run\<close> is told to stop, or while it drains the queue.  This
  includes what the informers report before their caches have synced and the workers start.
  \<^verbatim>\<open>Run\<close> returns without an error only then.
\<close>

theorem notification_handled:
  assumes "drain_laws wq shutDown closed work" "hold_laws wq shutDown closed waiting busy"
    and "\<not> closed q" "busy q = {}" "0 < sint (oWorkers (cOpts c))"
    and "announcedKey keyFunc splitKey (oWatchNodes (cOpts c)) e = Some k"
  shows "(\<exists>n. \<forall>sch. enoughTurns n (workersOf (cOpts c)) sch \<longrightarrow>
     fst (Run wq shutDown clk keyFunc splitKey early True (past @ e # future) sch (c, q)) = Returned None \<and>
     0 < takenAfter wq shutDown clk keyFunc splitKey early (past @ [e]) future sch (c, q) k) \<and>
   (\<exists>n. \<forall>sch. enoughTurns n (workersOf (cOpts c)) sch \<longrightarrow>
     fst (Run wq shutDown clk keyFunc splitKey (early @ e # late) True events sch (c, q)) = Returned None \<and>
     0 < takenAfter wq shutDown clk keyFunc splitKey (early @ e # late) [] events sch (c, q) k)"
proof -
  let ?step = "sysStep wq clk keyFunc splitKey" and ?start = "runStart wq clk keyFunc splitKey"
  have workers: "workersOf (cOpts c) \<noteq> {}" using assms(5) by (simp add: workersOf_def lessThan_empty_iff)
  have informer: "isNotification e" using assms(6) by (cases e) (simp_all add: announcedKey_def)
  define s where "s = fold ?step past (?start early (c, q))"
  have 1: "\<not> closed (snd s)" "busy (snd s) = {}" "cOpts (fst s) = cOpts c"
    using events_hold [OF assms(2), of "?start early (c, q)" clk keyFunc splitKey past] assms(3)
      runStart_holds(1,2) [OF assms(2,4), of clk keyFunc splitKey early c]
      fold_sysStep_opts [of wq clk keyFunc splitKey past "?start early (c, q)"] runStart_opts by (simp_all add: s_def)
  have 2: "?step e s = fold ?step (past @ [e]) (?start early (c, q))" by (simp add: s_def)
  have 3: "busy (snd (?step e s)) = {}" "k \<in> waiting (snd (?step e s))"
    using sysStep_holds(2) [OF assms(2) 1(2)] announced_waits [OF assms(2) 1(1), of keyFunc splitKey "fst s" e k clk] 1(3) assms(6)
    by simp_all
  have 4: "?start (early @ e # late) (c, q) = fold ?step [] (?start (early @ e # late) (c, q))" by simp
  have 5: "busy (snd (?start (early @ e # late) (c, q))) = {}" "k \<in> waiting (snd (?start (early @ e # late) (c, q)))"
    using runStart_holds(2) [OF assms(2,4)]
      runStart_holds(3) [OF assms(2,4,3) _ informer assms(6), of "early @ e # late" clk] by simp_all
  show ?thesis
    using waiting_taken [OF assms(1,2) workers 2 3, of future] waiting_taken [OF assms(1,2) workers 4 5, of events]
    by (simp only: append_assoc append_Cons append_Nil simp_thms)
qed

theorem notification_handled_witness:
  "\<exists>n. \<forall>sch. enoughTurns n (workersOf (cOpts demoController)) sch \<longrightarrow>
     0 < takenAfter listQueueOps listShutDown demoClock demoKeyFunc demoSplitKey []
       [PodNotified (AddFunc (Obj ''crash''))] [Tick (demoWorld (Found demoPod))] sch (demoController, [], \<lambda>_. 0, False) demoKey"
proof -
  have "0 < sint (oWorkers (cOpts demoController))" by (simp add: demoController_def demoOptions_def New_def Let_def)
  moreover have "announcedKey demoKeyFunc demoSplitKey (oWatchNodes (cOpts demoController))
      (PodNotified (AddFunc (Obj ''crash''))) = Some demoKey"
    by (simp add: announcedKey_def demoKeyFunc_def demoSplitKey_def plain_def demoKey_def)
  moreover have "\<not> snd (snd ([] :: queueKey list, \<lambda>_. 0 :: int, False))" by simp
  ultimately show ?thesis
    using notification_handled [OF listQueue_drain listQueue_hold, of "([], \<lambda>_. 0, False)" demoController demoKeyFunc
        demoSplitKey "PodNotified (AddFunc (Obj ''crash''))" demoKey demoClock "[]" "[]" "[Tick (demoWorld (Found demoPod))]"]
    unfolding append_Nil by blast
qed

section \<open>Shutting down\<close>

text \<open>
  A queue that is closed takes nothing more: no operation the workers use, nor a second
  \<open>ShutDown\<close>, makes a key wait that did not wait before.
\<close>

definition shut_laws :: "'q workqueue \<Rightarrow> ('q \<Rightarrow> 'q) \<Rightarrow> ('q \<Rightarrow> bool) \<Rightarrow> ('q \<Rightarrow> queueKey set) \<Rightarrow> bool" where
  "shut_laws wq shutDown closed waiting \<longleftrightarrow>
     (\<forall>k q. closed q \<longrightarrow> waiting (qAddRateLimited wq k q) \<subseteq> waiting q) \<and>
     (\<forall>k q. closed q \<longrightarrow> waiting (qForget wq k q) \<subseteq> waiting q) \<and>
     (\<forall>k q. closed q \<longrightarrow> waiting (qDone wq k q) \<subseteq> waiting q) \<and>
     (\<forall>q. closed q \<longrightarrow> waiting (snd (qGet wq q)) \<subseteq> waiting q) \<and>
     (\<forall>q. closed q \<longrightarrow> waiting (shutDown q) \<subseteq> waiting q)"

lemma listQueue_shut: "shut_laws listQueueOps listShutDown (\<lambda>q. snd (snd q)) (\<lambda>q. set (fst q))"
  by (auto simp: shut_laws_def listQueueOps_def listShutDown_def split: list.splits)

lemma processNext_shut:
  assumes "hold_laws wq shutDown closed waiting busy" "shut_laws wq shutDown closed waiting" "closed q"
    and "processNext wq clk w (c, q) = (b, c', q')"
  shows "waiting q' \<subseteq> waiting q"
proof -
  obtain r q1 where get: "qGet wq q = (r, q1)" by fastforce
  have "waiting (snd (qGet wq q)) \<subseteq> waiting q" using assms(2,3) unfolding shut_laws_def by blast
  then have 1: "waiting q1 \<subseteq> waiting q" "closed q1"
    using hold_get(1) [OF assms(1) get] assms(3) by (simp_all add: get)
  show ?thesis
  proof (cases r)
    case None
    then show ?thesis using 1(1) assms(4) get by (simp add: processNext_none)
  next
    case (Some key)
    define q2 where "q2 = (if fails w key \<and> qNumRequeues wq key q1 < 5 then qAddRateLimited wq key q1 else qForget wq key q1)"
    have q': "q' = qDone wq key q2"
      using processNext_some(2) [OF get [unfolded Some], of clk w c] assms(4) by (simp add: q2_def)
    have 2: "closed q2" using hold_put(1,4) [OF assms(1)] 1(2) by (simp add: q2_def)
    have "waiting q2 \<subseteq> waiting q1" using assms(2) 1(2) by (simp add: q2_def shut_laws_def)
    moreover have "waiting q' \<subseteq> waiting q2" using assms(2) 2 unfolding q' shut_laws_def by blast
    ultimately show ?thesis using 1(1) by blast
  qed
qed

text \<open>Once a worker of the draining pool has returned, nothing waits any more.\<close>

lemma pool_empties:
  assumes "hold_laws wq shutDown closed waiting busy" "shut_laws wq shutDown closed waiting" "closed q" "busy q = {}"
  shows "closed (snd (snd (workerPool wq clk sch (R, c, q)))) \<and>
     waiting (snd (snd (workerPool wq clk sch (R, c, q)))) \<subseteq> waiting q \<and>
     (fst (workerPool wq clk sch (R, c, q)) = R \<or> waiting (snd (snd (workerPool wq clk sch (R, c, q)))) = {})"
  using assms(3,4)
proof (induction sch arbitrary: R c q)
  case (Cons t sch)
  obtain j w where t: "t = (j, w)" by (cases t)
  show ?case
  proof (rule workerTurn_cases [of wq clk j w R c q])
    assume "workerTurn wq clk (j, w) (R, c, q) = (R, c, q)"
    then show ?thesis using Cons.IH [of q R c] Cons.prems by (simp add: t workerPool_def del: workerTurn.simps)
  next
    fix b c' q'
    assume turn: "workerTurn wq clk (j, w) (R, c, q) = (if b then R else R - {j}, c', q')"
      "processNext wq clk w (c, q) = (b, c', q')"
    note step = processNext_holds [OF assms(1) Cons.prems(2) turn(2)]
    have sub: "waiting q' \<subseteq> waiting q" by (rule processNext_shut [OF assms(1,2) Cons.prems(1) turn(2)])
    have "closed q'" using step(1) Cons.prems(1) by simp
    note ih = Cons.IH [OF this step(2), of "if b then R else R - {j}" c']
    have run: "workerPool wq clk (t # sch) (R, c, q) = workerPool wq clk sch (if b then R else R - {j}, c', q')"
      using turn(1) by (simp add: t workerPool_def del: workerTurn.simps)
    show ?thesis
    proof (cases b)
      case True
      then show ?thesis using ih sub unfolding run by auto
    next
      case False
      then show ?thesis using ih sub step(3) unfolding run by blast
    qed
  qed
qed (simp add: workerPool_def)

lemma Run_drained:
  assumes "hold_laws wq shutDown closed waiting busy" "shut_laws wq shutDown closed waiting"
    and "drain_laws wq shutDown closed work" "busy q = {}" "workersOf (cOpts c) \<noteq> {}"
    and "fst (Run wq shutDown clk kf sk early True events sch (c, q)) = Returned None"
  shows "waiting (snd (snd (Run wq shutDown clk kf sk early True events sch (c, q)))) = {}"
proof -
  let ?s = "drainStart wq shutDown clk kf sk events (runStart wq clk kf sk early (c, q))"
  obtain c1 q1 where s: "?s = (c1, q1)" by fastforce
  obtain R c2 q2 where pool: "workerPool wq clk sch (workersOf (cOpts c), c1, q1) = (R, c2, q2)" by (metis prod.exhaust)
  have "busy (snd (runStart wq clk kf sk early (c, q))) = {}" by (rule runStart_holds(2) [OF assms(1,4)])
  from drainStart_holds(1,2) [OF assms(3,1) this, of clk kf sk events] have 1: "busy q1 = {}" "closed q1"
    by (simp_all add: s)
  have R: "R = {}" and run: "Run wq shutDown clk kf sk early True events sch (c, q) = (Returned None, c2, shutDown q2)"
    using assms(6) by (simp_all add: Run_parts s pool split: if_splits)
  have "closed q2" "waiting q2 = {}"
    using pool_empties [OF assms(1,2) 1(2,1), of clk sch "workersOf (cOpts c)" c1] assms(5) by (simp_all add: pool R)
  then have "waiting (shutDown q2) \<subseteq> {}" using assms(2) unfolding shut_laws_def by blast
  then show ?thesis by (simp add: run)
qed

text \<open>
  C18.  \<^verbatim>\<open>Run\<close> comes back, and leaves nothing behind.  If the informer caches do not sync it returns
  that error, and the readiness probe answers 503.  Otherwise the probe answers 200 and, once
  the context is cancelled, whatever happened before and whatever the listers answer, every
  schedule in which each worker of the pool gets enough turns ends all of them; \<^verbatim>\<open>Run\<close> returns no
  error and no key waits in the queue: it has been drained.  How many turns are
  enough does not depend on the schedule.
\<close>

theorem Run_returns:
  assumes "drain_laws wq shutDown closed work" "hold_laws wq shutDown closed waiting busy"
    and "shut_laws wq shutDown closed waiting" "busy q = {}"
    and "0 < sint (oWorkers (cOpts c))" "\<not> ready (cMetrics c)"
  shows "\<exists>n. \<forall>sch. enoughTurns n (workersOf (cOpts c)) sch \<longrightarrow>
     (case Run wq shutDown clk kf sk early synced events sch (c, q) of (res, c', q') \<Rightarrow>
        res = Returned (if synced then None else Some ''watcher: informer caches failed to sync'') \<and>
        rStatus (Handler page mux (cMetrics c') ''/readyz'') = (if synced then 200 else 503) \<and>
        (synced \<longrightarrow> waiting q' = {}))"
proof -
  have probe: "rStatus (Handler page mux m ''/readyz'') = (if ready m then 200 else 503)" for m
    by (simp add: Handler_def)
  have workers: "workersOf (cOpts c) \<noteq> {}" using assms(5) by (simp add: workersOf_def lessThan_empty_iff)
  obtain n where n: "\<And>sch. enoughTurns n (workersOf (cOpts c)) sch \<Longrightarrow>
     fst (Run wq shutDown clk kf sk early synced events sch (c, q)) =
       Returned (if synced then None else Some ''watcher: informer caches failed to sync'') \<and>
     ready (cMetrics (fst (snd (Run wq shutDown clk kf sk early synced events sch (c, q))))) = synced"
    using Run_terminates [OF assms(1), of c clk kf sk early synced events q] assms(6) by blast
  show ?thesis
  proof (intro exI [of _ n] allI impI)
    fix sch assume "enoughTurns n (workersOf (cOpts c)) sch"
    note ends = n [OF this]
    obtain res c' q' where run: "Run wq shutDown clk kf sk early synced events sch (c, q) = (res, c', q')"
      by (metis prod.exhaust)
    have "waiting q' = {}" if synced
      using Run_drained [OF assms(2,3,1,4) workers, of clk kf sk early events sch] ends that run by simp
    then show "case Run wq shutDown clk kf sk early synced events sch (c, q) of (res, c', q') \<Rightarrow>
        res = Returned (if synced then None else Some ''watcher: informer caches failed to sync'') \<and>
        rStatus (Handler page mux (cMetrics c') ''/readyz'') = (if synced then 200 else 503) \<and>
        (synced \<longrightarrow> waiting q' = {})"
      using ends by (simp add: run probe)
  qed
qed

theorem Run_returns_witness:
  "\<exists>n. \<forall>sch. enoughTurns n {0, 1} sch \<longrightarrow>
     (case Run listQueueOps listShutDown demoClock demoKeyFunc demoSplitKey [] True
        [PodNotified (AddFunc (Obj ''crash''))] sch (demoController\<lparr>cMetrics := \<lparr>ready = False\<rparr>\<rparr>, [], \<lambda>_. 0, False) of
      (res, c', q') \<Rightarrow> res = Returned None \<and> set (fst q') = {})"
proof -
  let ?c = "demoController\<lparr>cMetrics := \<lparr>ready = False\<rparr>\<rparr>"
  have "{..<2} = {0, 1 :: nat}" by auto
  then have two: "workersOf (cOpts ?c) = {0, 1}"
    by (simp add: workersOf_def demoController_def demoOptions_def New_def Let_def)
  have "0 < sint (oWorkers (cOpts ?c))" "\<not> ready (cMetrics ?c)"
    by (simp_all add: demoController_def demoOptions_def New_def Let_def)
  from Run_returns [where q = "([], \<lambda>_. 0, False)" and clk = demoClock and kf = demoKeyFunc and sk = demoSplitKey
      and early = "[]" and synced = True and events = "[PodNotified (AddFunc (Obj ''crash''))]",
      OF listQueue_drain listQueue_hold listQueue_shut refl this] show ?thesis
    unfolding two if_True case_prod_beta by blast
qed

end
