(* ===== verification/Spec2Isabelle.thy ===== *)
theory Spec2Isabelle
  imports Main_Cmd K8s_Client Workers_Parallel Incident_Spec Queue_Delivery
begin

text \<open>
  Verification of kube-reliability-sentinel (\<^verbatim>\<open>src/\<close>), a Kubernetes controller that watches Pods
  and Nodes, recognises reliability problems and reports each of them as a log record, a
  Kubernetes Event and a metric, at most once per resend interval.

  \<^bold>\<open>How the program works.\<close>  Informers put the keys of changed objects on a work queue.  A worker
  takes a key, reads the object from the informer's cache and asks the rule engine for its
  alerts (\<^verbatim>\<open>reconcile\<close>).  Delivering them fires each alert at the deduper, which passes it to
  the sinks or suppresses it, and ages the alerts of the object that are no longer present:
  firing, then clearing, and after a grace period resolved, at which point the deduper forgets
  them.  A deleted object is cleared at once.  A failed reconcile is retried five times.

  \<^bold>\<open>Theories.\<close>
  \<^item> \<open>Sentinel_Prelude\<close>: maps with Go's interface (locale \<open>finite_map\<close>), reachability and invariants
    (locale \<open>invariant_of\<close>), refinement of machines with output (locale \<open>implements\<close>), word and list
    lemmas.  \<open>Go_Time\<close> and \<open>Go_Strings\<close> model what the
    program uses of \<^verbatim>\<open>time\<close>, \<^verbatim>\<open>strings\<close>, \<^verbatim>\<open>strconv\<close> and \<^verbatim>\<open>fmt\<close>: 64-bit durations with wrap-around and
    saturation, monotonic and wall readings, quoting, trimming, duration printing.
  \<^item> \<open>K8s_Api\<close>: the fields of the Kubernetes objects the program reads.  \<open>Effects\<close>: calls to the
    libraries the program writes to, recorded in order.
  \<^item> \<open>Reliability_Util\<close>, \<open>Reliability\<close>: \<^verbatim>\<open>internal/reliability\<close>.  The evaluators are compared with
    the rule tables \<open>pod_rule\<close> and \<open>node_rule\<close>; deduplication keys identify alerts.
  \<^item> \<open>Prom_Registry\<close>: collectors and the laws of the Prometheus registry.  \<open>Metrics\<close>, \<open>Queue_Metrics\<close>:
    \<^verbatim>\<open>internal/metrics\<close>; the metric set is registered without a panic and shares its registry with the
    metrics of the work queue.
  \<^item> \<open>Rate_Limiter\<close>: the contract of a per-key rate limiter as a locale.  \<open>Alert_Pipeline\<close>:
    \<^verbatim>\<open>internal/alert\<close>; the deduper is an instance of that contract.
  \<^item> \<open>Restart_Tracker\<close>: \<^verbatim>\<open>internal/watcher/restart_tracker.go\<close>; its state is exactly the sliding window
    of each container's observed increases.
  \<^item> \<open>Controller\<close>: \<^verbatim>\<open>internal/watcher/controller.go\<close>, one definition per method.
    \<open>Controller_Delivery\<close>: a delivery entry by entry, as a three-state machine.
    \<open>Controller_Invariant\<close>: the invariant tying the table of active alerts to the deduper.
    \<open>Controller_Runs\<close>: reachable states and histories of reconciles.
    \<open>Controller_Queue\<close>: informer handlers, worker pool, retries, \<^verbatim>\<open>Run\<close> and shutdown.
    \<open>Queue_Delivery\<close>: from a notification to the reconcile it causes, also across shutdown.
  \<^item> \<open>Incident_Spec\<close>: the abstract specification of controller and deduper together, a list of
    incidents per object, and that the detailed tables implement it (locale \<open>implements\<close>).
  \<^item> \<open>Schedules\<close>: agents that share a state but keep to their own part of it (locale
    \<open>independent_agents\<close>).  \<open>Worker_Steps\<close>: a reconcile as a sequence of locked steps, and that
    one worker alone does what \<open>reconcile\<close> does.  \<open>Workers_Parallel\<close>: the workers are such agents,
    so every interleaving of their steps acts like \<open>reconcile\<close>.
  \<^item> \<open>K8s_Client\<close>: \<^verbatim>\<open>internal/k8sclient\<close>, the list-and-watch client.
  \<^item> \<open>Main_Cmd\<close>: \<^verbatim>\<open>cmd/sentinel\<close>, flags and wiring.
  \<^item> This theory: properties that span the whole program.

  \<^bold>\<open>State and effects.\<close>  Go structs are records, maps are association lists with distinct keys,
  and integers keep their width.  A method that mutates its receiver returns the new value.
  Reading the clock is explicit: \<open>clk\<close> is the sequence of readings and the controller counts
  how many it took.  Metric updates, log records and Events are appended to \<open>cOut\<close>.

  \<^bold>\<open>Concurrency.\<close>  Workers share the controller behind mutexes and the queue never hands one key
  to two workers at once, so a run is modelled as a sequence of whole \<^verbatim>\<open>processNext\<close> calls,
  informer notifications and gauge ticks in any order.  \<open>workers_serializable\<close> justifies this for
  the body of a call: in \<open>Worker_Steps\<close> a worker proceeds one restart observation, one firing and one
  critical section of the controller at a time, and whatever the other workers do in between,
  it ends with the result, the calls and the table entries of a \<open>reconcile\<close> that runs alone.  No
  step takes more than one lock: ageing one alert, and each \<^verbatim>\<open>Forget\<close> inside \<^verbatim>\<open>deliver\<close> and \<^verbatim>\<open>clearObject\<close>,
  is a step of its own, so the model allows every interleaving the locks allow and more.  The
  order in which the output of different workers reaches the log is not modelled at that
  granularity.

  \<^bold>\<open>Parameters and their laws.\<close>  The work queue (\<open>wq_laws\<close>, \<open>drain_laws\<close>,
  \<open>hold_laws\<close>, \<open>shut_laws\<close>), the key functions of
  client-go (\<open>keys_ok\<close>), the listers (\<open>lister_ok\<close>), the Prometheus registry (\<open>reg_laws\<close>, \<open>prom_ok\<close>), JSON, URL and
  flag value parsing, the kubeconfig loader and the API server are arguments; each law is
  shown satisfiable by a concrete instance in the witness of the property that uses it.

  \<^bold>\<open>Fuel.\<close>  The worker pool runs for as many turns as its schedule has, and \<open>ListAndWatch\<close> for as many
  rounds as it is given.  For the pool after shutdown it is proved that every schedule that
  gives each worker enough turns (\<open>enoughTurns\<close>) empties it; \<open>ListAndWatch\<close> is meant to run until cancelled.

  \<^bold>\<open>Groups of properties.\<close>  Rules: which alerts are raised, for which object, and when.
  Refinement: the tables implement the list of incidents, with the same reports.
  Deduplication: spacing of reports, also of a flapping alert; a standing problem is reported
  again within every resend interval; no leaked records; deletion.  A report is always read off the
  calls really made: \<open>reveals P k\<close> says that \<open>P\<close> recognises the sink's calls for the key \<open>k\<close>, and
  \<open>reportTimes\<close> and \<open>reportWindows\<close> are the firings and the reconciles with such a call in their output.  Restart bursts: the window and the
  verdict.  Queue: retry budget, no lost notification, system invariant, independence of parallel workers,
  termination of \<^verbatim>\<open>Run\<close> with a drained queue and of the process.  Metrics: registration, accounting and well-formed
  updates.  Client: framing, recovery, URL round trip.  Some properties record behaviour the
  documentation does not promise: pressure conditions of a node that hide each other, a message
  cut inside a character, the rapid-restart rule on Pods being deleted, the truncated restart
  threshold, the namespace flag that needs another one, the repeated report of a standing problem; the lemma \<open>first_observation_counts\<close> one more.

  \<^bold>\<open>Not modelled.\<close>  TLS and HTTP transport, the Prometheus text format, the informer caches'
  internals, the event broadcaster and signal handling: all of it is library code or I/O.
  \<^verbatim>\<open>Close\<close>, \<^verbatim>\<open>Registry\<close> and the struct-wrapping constructors carry no logic of their own.
\<close>

section \<open>From a rule to a report\<close>

text \<open>The first firing of an unrecorded key in a batch reaches the sinks.\<close>

lemma fireOps_delivers_new:
  assumes "mget (dLastSeen d) (Key a) = None" "a \<in> set alerts"
  shows "\<exists>b \<in> set alerts. Key b = Key a \<and> set (dNext d b) \<subseteq> set (snd (pipeRun d (fireOps clk n alerts)))"
  using assms
proof (induction alerts arbitrary: d n)
  case (Cons x xs)
  let ?d = "fst (DeduperFire d (clk n) x)"
  have out: "snd (pipeRun d (fireOps clk n (x # xs))) =
      snd (DeduperFire d (clk n) x) @ snd (pipeRun ?d (fireOps clk (Suc n) xs))"
    by (simp add: case_prod_beta)
  show ?case
  proof (cases "Key x = Key a")
    case True
    then have "set (dNext d x) \<subseteq> set (snd (DeduperFire d (clk n) x))"
      using Cons.prems(1) by (simp add: DeduperFire_def)
    then show ?thesis using True unfolding out by (intro bexI [of _ x]) auto
  next
    case False
    then have "mget (dLastSeen ?d) (Key a) = None" "dNext ?d = dNext d" "a \<in> set xs"
      using Cons.prems by (auto simp: DeduperFire_def Let_def)
    with Cons.IH [of ?d "Suc n"] show ?thesis unfolding out by auto
  qed
qed simp

text \<open>
  C5.  Detection to report.  When a Pod is reconciled in a reachable state and an alert of the rule
  engine for it is not tracked yet, that reconcile itself writes a Kubernetes Event and a
  log record for the alert's key: nothing on the way (deduper, clearing, other alerts of the same
  Pod) can swallow a new problem.
\<close>

theorem new_problem_reported:
  assumes "ctrl_reachable clk c" "dNext (cDeduper c) = fullSink"
    and "qkKind key = ''Pod''" "wPodGet w (qkNamespace key) (qkName key) = Found pod"
    and "a \<in> set (EvaluatePod (wIsPrint w) (Some pod) (oThresholds (cOpts c)) (clk (cTicks c)))"
    and "\<forall>obj. activeOf c obj (Key a) = None"
  shows "\<exists>b calls. Key b = Key a \<and> cOut (fst (reconcile clk w c key)) = cOut c @ calls \<and>
     RecorderEvent (ObjectReferenceOf b) EventTypeWarning (''Sentinel'' @ alReason b) (alMessage b) \<in> set calls \<and>
     set (SlogSinkFire b) \<subseteq> set calls"
proof -
  let ?ops = "reconcileOps clk w c key"
  have inv: "ctrl_inv c" using assms(1) by (rule ctrl.holds_reachable)
  then have "Key a \<notin> dom (mget (dLastSeen (cDeduper c)))"
    using assms(6) by (simp add: ctrl_inv_def trackedKeys_def)
  then have new: "mget (dLastSeen (cDeduper c)) (Key a) = None" by (simp add: domIff)
  obtain alerts tr where view: "viewOf clk w c key = VAlerts alerts tr" and a: "a \<in> set alerts"
    using assms(3-5) by (simp add: viewOf_def Let_def)
  have ops: "?ops = deliverOps clk (tick c) (objectKey key) alerts"
    using view by (simp add: reconcileOps_def)
  obtain b where b: "Key b = Key a"
    "set (fullSink b) \<subseteq> set (snd (pipeRun (cDeduper c) (fireOps clk (Suc (cTicks (tick c))) alerts)))"
    using fireOps_delivers_new [OF new a] assms(2) by metis
  then have "set (fullSink b) \<subseteq> set (snd (pipeRun (cDeduper c) ?ops))"
    unfolding ops deliverOps_def pipeRun_append by auto
  then show ?thesis
    using b(1) reconcile_pipe(2) [of clk w c key]
    by (intro exI [of _ b] exI [of _ "snd (pipeRun (cDeduper c) ?ops)"])
      (auto simp: fullSink_def EventSinkFire_def Let_def)
qed

theorem new_problem_reported_witness:
  "\<exists>b calls. Key b = crashKey \<and> cOut demoRun = cOut demoController @ calls \<and>
     RecorderEvent (ObjectReferenceOf b) EventTypeWarning (''Sentinel'' @ alReason b) (alMessage b) \<in> set calls"
proof -
  let ?w = "demoWorld (Found demoPod)"
  have sink: "dNext (cDeduper demoController) = fullSink"
    by (simp add: demoController_def New_def Let_def NewDeduper_def)
  have key: "qkKind demoKey = ''Pod''" "wPodGet ?w (qkNamespace demoKey) (qkName demoKey) = Found demoPod"
    by (simp_all add: demoKey_def demoWorld_def)
  have print: "wIsPrint ?w = (\<lambda>_. True)" by (simp add: demoWorld_def)
  have "crashKey \<in> Key ` set (EvaluatePod (wIsPrint ?w) (Some demoPod) (oThresholds (cOpts demoController))
      (demoClock (cTicks demoController)))" unfolding print by (rule demo_crash)
  then obtain a where k: "crashKey = Key a" and a: "a \<in> set (EvaluatePod (wIsPrint ?w) (Some demoPod)
      (oThresholds (cOpts demoController)) (demoClock (cTicks demoController)))" by (rule imageE)
  have "\<forall>obj. activeOf demoController obj (Key a) = None"
    by (simp add: activeOf_def demoController_def New_def Let_def)
  from new_problem_reported [OF demo_reachable(1) sink key a this] show ?thesis
    unfolding demoRun_def k by blast
qed

section \<open>Accounting of the whole program\<close>

text \<open>
  C16.  Accounting.  Wired by the command line with events enabled, over any history of reconciles:
  every alert the rules raised is counted exactly once, as fired or as suppressed, and the
  numbers of alert log records, Kubernetes Events and counted Events equal the number fired.
\<close>

theorem program_accounting:
  assumes "fEnableEvents f"
  shows "let out = cOut (ctrlRun clk (wire p m f) items) in
     count_calls (is_counter sentinel_alerts_fired_total) out
       + count_calls (is_counter sentinel_alerts_suppressed_total) out = firings (runOps clk (wire p m f) items) \<and>
     count_calls is_log out = count_calls (is_counter sentinel_alerts_fired_total) out \<and>
     count_calls is_event out = count_calls (is_counter sentinel_alerts_fired_total) out \<and>
     count_calls (is_counter sentinel_kube_events_emitted_total) out = count_calls is_event out"
proof -
  have d: "dNext (cDeduper (wire p m f)) = fullSink" "dCounters (cDeduper (wire p m f)) = Some metricsCounters"
    and out: "cOut (wire p m f) = []"
    using assms by (simp_all add: wire_def New_def Let_def NewDeduper_def sinksOf_def fullSink_def)
  show ?thesis using pipeRun_counts [OF d, of "runOps clk (wire p m f) items"]
    by (simp add: runOps_pipe out Let_def)
qed

theorem program_accounting_witness:
  "count_calls is_event (cOut (ctrlRun demoClock (wire demoProcess \<lparr>ready = False\<rparr> (registerFlags (\<lambda>_. ''''))) [(demoWorld (Found demoPod), demoKey)])) =
   count_calls (is_counter sentinel_alerts_fired_total)
     (cOut (ctrlRun demoClock (wire demoProcess \<lparr>ready = False\<rparr> (registerFlags (\<lambda>_. ''''))) [(demoWorld (Found demoPod), demoKey)]))"
proof -
  have "fEnableEvents (registerFlags (\<lambda>_. ''''))" by (simp add: registerFlags_def)
  from program_accounting [OF this, of demoClock demoProcess "\<lparr>ready = False\<rparr>" "[(demoWorld (Found demoPod), demoKey)]"] show ?thesis
    unfolding Let_def by blast
qed

section \<open>The life of the process\<close>

text \<open>
  C19.  Exit status.  Started with arguments that parse, a reachable configuration, a working
  metrics library and a queue that drains after shutdown, the process ends under every schedule
  that gives its workers enough turns: with status 0 after a clean shutdown, and with status 1
  and a final log record naming the error when the informer caches never synced.
\<close>

theorem main_exit_status:
  assumes "drain_laws wq shutDown closed work" "prom_ok pr stored"
    and "parseFlags P getenv args = Inr f" "\<not> fShowVersion f"
    and "buildRESTConfig p (fKubeconfig f) = Inr cfg"
    and "newForConfig p (cfg\<lparr>rcUserAgent := ''kube-reliability-sentinel/'' @ version\<rparr>) = None"
  shows "\<exists>n. \<forall>sch. enoughTurns n (workersOf (cOpts (wire p \<lparr>ready = False\<rparr> f))) sch \<longrightarrow>
     (let (status, out) = main P getenv p pr version commit
        (\<lambda>c. case Run wq shutDown clk keyFunc splitKey early synced events sch (c, q) of (res, c, q) \<Rightarrow> (res, c)) args
      in status = Some (if synced then 0 else 1) \<and>
         (\<not> synced \<longrightarrow> last out = LogAttrs LevelError ''fatal'' [(''err'', ''watcher: informer caches failed to sync'')]))"
proof -
  obtain r where new: "newMetrics pr version commit (buildInfo p) =
      Some (\<lparr>ready = False\<rparr>, [GaugeVecSet sentinel_build_info [version, commit, goVersion (buildInfo p)] 1], r)"
    using newMetrics_ok [OF assms(2)] by blast
  let ?c = "launch p \<lparr>ready = False\<rparr> [GaugeVecSet sentinel_build_info [version, commit, goVersion (buildInfo p)] 1] version f"
  have opts: "cOpts ?c = cOpts (wire p \<lparr>ready = False\<rparr> f)" by (simp add: launch_def emit_def)
  obtain n where n: "enoughTurns n (workersOf (cOpts ?c)) sch \<Longrightarrow>
     fst (Run wq shutDown clk keyFunc splitKey early synced events sch (?c, q)) =
       Returned (if synced then None else Some ''watcher: informer caches failed to sync'')" for sch
    using Run_terminates [OF assms(1), of ?c clk keyFunc splitKey early synced events q] by blast
  have run: "run p pr version commit controllerRun f = (fst (controllerRun ?c), cOut (snd (controllerRun ?c)))" for controllerRun
    unfolding run_def assms(5) sum.case Let_def assms(6) new option.case prod.case by (simp only: case_prod_beta)
  show ?thesis
    unfolding main_def assms(3) sum.case run
    by (intro exI [of _ n] allI impI) (use n opts assms(4) in \<open>simp add: case_prod_beta\<close>)
qed

theorem main_exit_status_witness:
  "\<exists>n. \<forall>sch. enoughTurns n (workersOf (cOpts (wire demoProcess \<lparr>ready = False\<rparr> ((registerFlags (\<lambda>_. ''''))\<lparr>fWatchNodes := False\<rparr>)))) sch \<longrightarrow>
     fst (main \<lparr>parseInt = (\<lambda>_. None), parseDuration = (\<lambda>_. None)\<rparr> (\<lambda>_. '''') demoProcess mapProm ''dev'' ''none''
       (\<lambda>c. case Run listQueueOps listShutDown demoClock demoKeyFunc demoSplitKey [] True [] sch (c, ([], \<lambda>_. 0, False)) of
              (res, c, q) \<Rightarrow> (res, c)) [''--watch-nodes=false'']) = Some 0"
proof -
  let ?P = "\<lparr>parseInt = (\<lambda>_. None), parseDuration = (\<lambda>_. None)\<rparr> :: parsers"
  let ?f = "(registerFlags (\<lambda>_. ''''))\<lparr>fWatchNodes := False\<rparr>"
  have f: "parseFlags ?P (\<lambda>_. '''') [''--watch-nodes=false''] = Inr ?f"
    by (simp add: parseFlags_def registerFlags_def splitFlag_def flagTable_def setFlag_def isBoolFlag_def parseBool_def)
  have "\<not> fShowVersion ?f" "buildRESTConfig demoProcess (fKubeconfig ?f) = Inr \<lparr>rcUserAgent = '''', rcRest = ()\<rparr>"
    "newForConfig demoProcess (\<lparr>rcUserAgent = '''', rcRest = ()\<rparr>\<lparr>rcUserAgent := ''kube-reliability-sentinel/'' @ ''dev''\<rparr>) = None"
    by (simp_all add: registerFlags_def buildRESTConfig_def demoProcess_def envOr_def)
  from main_exit_status [OF listQueue_drain mapProm_ok f this, of "''none''" demoClock demoKeyFunc demoSplitKey "[]" True "[]" "([], \<lambda>_. 0, False)"]
  show ?thesis unfolding case_prod_beta Let_def if_True by blast
qed

end
